theory Spec2Isabelle
  imports Main "HOL-Library.Word"
begin

section \<open>Rate limiter (contact-form.js, checkRateLimit and recordSubmission)\<close>

text \<open>
  The durable store is the localStorage item \<^verbatim>\<open>form_submissions\<close>: \<open>None\<close> when the key is
  absent, otherwise the JSON array of epoch-millisecond timestamps. Timestamps are the
  integers \<^verbatim>\<open>Date.now()\<close> returns; they are modelled as \<open>int\<close> (the doubles of the source
  are exact on them), and \<^verbatim>\<open>Math.ceil(x / 60000)\<close> is the integer ceiling.
  The console lines of the source are not part of the model.
\<close>

type_synonym durable_store = "int list option"

text \<open>\<^verbatim>\<open>JSON.parse(localStorage.getItem('form_submissions') || '[]')\<close>\<close>

definition stored_submissions :: "durable_store \<Rightarrow> int list" where
  "stored_submissions item = (case item of None \<Rightarrow> [] | Some xs \<Rightarrow> xs)"

definition oneHour :: int where
  "oneHour = 60 * 60 * 1000"

text \<open>
  The texts shown to the user are ASCII literals and are modelled as HOL strings.
  \<open>number_to_string\<close> is the decimal text of an integer, as the template literal
  \<^verbatim>\<open>${minutesLeft}\<close> produces it (for magnitudes below \<^verbatim>\<open>1e21\<close>, where JavaScript does
  not switch to the exponent form).
\<close>

function digits :: "nat \<Rightarrow> string" where
  "digits n =
     (if n < 10 then [''0123456789'' ! n] else digits (n div 10) @ [''0123456789'' ! (n mod 10)])"
  by pat_completeness auto
termination
  by (relation "measure (\<lambda>n. n)") auto

declare digits.simps [simp del]

definition number_to_string :: "int \<Rightarrow> string" where
  "number_to_string i = (if i < 0 then CHR ''-'' # digits (nat (- i)) else digits (nat i))"

definition rate_limit_message :: "int \<Rightarrow> string" where
  "rate_limit_message minutes =
     ''Rate limit exceeded. Please try again in '' @ number_to_string minutes @ '' minute(s).''"

record rate_limit =
  allowed :: bool
  message :: "string option"

definition recentSubmissions :: "int list \<Rightarrow> int \<Rightarrow> int list" where
  "recentSubmissions submissions now = filter (\<lambda>timestamp. now - timestamp < oneHour) submissions"

text \<open>
  \<^verbatim>\<open>Math.min(...recentSubmissions)\<close> is evaluated only under the guard
  \<^verbatim>\<open>recentSubmissions.length >= 3\<close>, so its argument list is never empty.
\<close>

definition timeUntilNext :: "int list \<Rightarrow> int \<Rightarrow> int" where
  "timeUntilNext recent now = (let oldestSubmission = Min (set recent) in oldestSubmission + oneHour - now)"

definition minutesLeft :: "int \<Rightarrow> int" where
  "minutesLeft t = - ((- t) div 60000)"

definition checkRateLimit :: "durable_store \<Rightarrow> int \<Rightarrow> rate_limit" where
  "checkRateLimit item now =
     (let submissions = stored_submissions item;
          recent = recentSubmissions submissions now
      in if length recent \<ge> 3
         then \<lparr>allowed = False,
               message = Some (rate_limit_message (minutesLeft (timeUntilNext recent now)))\<rparr>
         else \<lparr>allowed = True, message = None\<rparr>)"

text \<open>
  \<^verbatim>\<open>submissions.push(Date.now()); if (submissions.length > 10) submissions.shift();\<close>
  followed by the write back to the store. The eviction is a single \<^verbatim>\<open>shift\<close>.
\<close>

definition recordSubmission :: "durable_store \<Rightarrow> int \<Rightarrow> durable_store" where
  "recordSubmission item now =
     (let submissions = stored_submissions item @ [now];
          submissions = (if length submissions > 10 then tl submissions else submissions)
      in Some submissions)"

text \<open>The store after a run of recorded submissions, starting from an absent key.\<close>

definition record_all :: "int list \<Rightarrow> durable_store" where
  "record_all stamps = fold (\<lambda>now item. recordSubmission item now) stamps None"

text \<open>
  The operation in the words of the specification ("appends \<^verbatim>\<open>now\<close>; if the sequence length
  exceeds 10, evicts from the front until length is 10"), to be compared with
  \<open>recordSubmission\<close>.
\<close>

function evict_until_cap :: "int list \<Rightarrow> int list" where
  "evict_until_cap submissions =
     (if length submissions > 10 then evict_until_cap (tl submissions) else submissions)"
  by pat_completeness auto
termination
  by (relation "measure length") auto

declare evict_until_cap.simps [simp del]

definition spec_recordSubmission :: "durable_store \<Rightarrow> int \<Rightarrow> durable_store" where
  "spec_recordSubmission item now = Some (evict_until_cap (stored_submissions item @ [now]))"

section \<open>JavaScript strings and values\<close>

text \<open>
  A JavaScript string is a sequence of UTF-16 code units; \<^verbatim>\<open>length\<close>, \<^verbatim>\<open>trim\<close> and the
  regular expressions of the source (none has the \<^verbatim>\<open>u\<close> flag) work on code units.
  \<open>js\<close> embeds an ASCII literal.
\<close>

type_synonym code_unit = "16 word"
type_synonym jsstring = "code_unit list"

definition js :: "string \<Rightarrow> jsstring" where
  "js s = map of_char s"

text \<open>
  The values a caller can pass where the source tests \<^verbatim>\<open>typeof x !== 'string'\<close>; only the
  tag matters there. \<open>JObject\<close> stands for every object, function, symbol and bigint.
\<close>

datatype js_value =
    JUndefined
  | JNull
  | JBoolean bool
  | JNumber int
  | JString jsstring
  | JObject

text \<open>
  WhiteSpace and LineTerminator of ECMAScript: the characters \<^verbatim>\<open>String.prototype.trim\<close>
  strips and the class \<^verbatim>\<open>\s\<close> matches.
\<close>

definition is_whitespace :: "code_unit \<Rightarrow> bool" where
  "is_whitespace c \<longleftrightarrow>
     c = 0x09 \<or> c = 0x0A \<or> c = 0x0B \<or> c = 0x0C \<or> c = 0x0D \<or> c = 0x20 \<or> c = 0xA0 \<or>
     c = 0x1680 \<or> (0x2000 \<le> c \<and> c \<le> 0x200A) \<or> c = 0x2028 \<or> c = 0x2029 \<or>
     c = 0x202F \<or> c = 0x205F \<or> c = 0x3000 \<or> c = 0xFEFF"

definition trim :: "jsstring \<Rightarrow> jsstring" where
  "trim s = rev (dropWhile is_whitespace (rev (dropWhile is_whitespace s)))"

text \<open>The class \<^verbatim>\<open>\w\<close>: \<^verbatim>\<open>[A-Za-z0-9_]\<close>.\<close>

definition is_word_char :: "code_unit \<Rightarrow> bool" where
  "is_word_char c \<longleftrightarrow>
     (0x61 \<le> c \<and> c \<le> 0x7A) \<or> (0x41 \<le> c \<and> c \<le> 0x5A) \<or> (0x30 \<le> c \<and> c \<le> 0x39) \<or> c = 0x5F"

text \<open>The class \<^verbatim>\<open>[a-zA-Z]\<close>.\<close>

definition is_ascii_letter :: "code_unit \<Rightarrow> bool" where
  "is_ascii_letter c \<longleftrightarrow> (0x61 \<le> c \<and> c \<le> 0x7A) \<or> (0x41 \<le> c \<and> c \<le> 0x5A)"

section \<open>Regular expressions of the source, with backtracking priority\<close>

text \<open>
  The constructs the regular expressions of the source use. A cursor is a position in the
  subject: the code units before it (nearest first) and those after it. \<open>matches r st\<close>
  lists the cursors at which a match of \<open>r\<close> started at \<open>st\<close> can end, in the order the
  backtracking matcher of ECMAScript tries them: the head is the match it reports.
  \<open>Star\<close> is the greedy \<^verbatim>\<open>*\<close>; as in ECMAScript, an iteration that consumes nothing is
  not continued.
\<close>

datatype rx =
    Cls "code_unit \<Rightarrow> bool"
  | Eps
  | Seq rx rx
  | Star rx
  | NotAhead rx
  | WordB
  | Bol
  | Eol

type_synonym cursor = "jsstring \<times> jsstring"

definition word_at :: "jsstring \<Rightarrow> bool" where
  "word_at s = (case s of [] \<Rightarrow> False | c # _ \<Rightarrow> is_word_char c)"

function matches :: "rx \<Rightarrow> cursor \<Rightarrow> cursor list" where
  "matches (Cls P) (b, []) = []"
| "matches (Cls P) (b, c # a) = (if P c then [(c # b, a)] else [])"
| "matches Eps st = [st]"
| "matches (Seq r1 r2) st = concat (map (matches r2) (matches r1 st))"
| "matches (Star r) st =
     concat (map (\<lambda>st'. if length (snd st') < length (snd st) then matches (Star r) st' else [])
                 (matches r st)) @ [st]"
| "matches (NotAhead r) st = (if matches r st = [] then [st] else [])"
| "matches WordB (b, a) = (if word_at b \<noteq> word_at a then [(b, a)] else [])"
| "matches Bol (b, a) = (if b = [] then [(b, a)] else [])"
| "matches Eol (b, a) = (if a = [] then [(b, a)] else [])"
  by pat_completeness auto
termination
  by (relation "inv_image (less_than <*lex*> less_than) (\<lambda>(r, st). (size r, length (snd st)))")
     auto

declare matches.simps(5) [simp del]

text \<open>\<^verbatim>\<open>r+\<close>, a sequence of parts, and a literal character.\<close>

definition Plus :: "rx \<Rightarrow> rx" where
  "Plus r = Seq r (Star r)"

primrec seqs :: "rx list \<Rightarrow> rx" where
  "seqs [] = Eps"
| "seqs (r # rs) = Seq r (seqs rs)"

definition Chr :: "char \<Rightarrow> rx" where
  "Chr c = Cls (\<lambda>x. x = of_char c)"

text \<open>
  A literal under the \<^verbatim>\<open>i\<close> flag (without \<^verbatim>\<open>u\<close>): two code units match when their
  canonical forms agree. The canonical form is the upper case, except that a code unit
  from 128 on is never mapped to one below 128; for the ASCII literals of the source the
  comparison therefore only ever succeeds on the ASCII letter in either case, which is what
  \<open>canonicalize\<close> computes.
\<close>

definition canonicalize :: "code_unit \<Rightarrow> code_unit" where
  "canonicalize c = (if 0x61 \<le> c \<and> c \<le> 0x7A then c - 0x20 else c)"

definition ci :: "char \<Rightarrow> rx" where
  "ci c = Cls (\<lambda>x. canonicalize x = canonicalize (of_char c))"

definition lit_ci :: "string \<Rightarrow> rx" where
  "lit_ci s = seqs (map ci s)"

text \<open>
  \<^verbatim>\<open>regex.test(s)\<close> for a regular expression without the \<^verbatim>\<open>g\<close> flag: a match may start
  at any index.
\<close>

fun test_from :: "rx \<Rightarrow> jsstring \<Rightarrow> jsstring \<Rightarrow> bool" where
  "test_from r b [] = (matches r (b, []) \<noteq> [])"
| "test_from r b (c # a) = (matches r (b, c # a) \<noteq> [] \<or> test_from r (c # b) a)"

definition test :: "rx \<Rightarrow> jsstring \<Rightarrow> bool" where
  "test r s = test_from r [] s"

text \<open>
  \<^verbatim>\<open>s.replace(regex, f)\<close> for a regular expression with the \<^verbatim>\<open>g\<close> flag: scanning from the
  left, the first match at the earliest index is replaced by \<open>f\<close> of the matched text and
  the scan resumes behind it; after an empty match the scan advances by one code unit.
\<close>

function replace_from :: "rx \<Rightarrow> (jsstring \<Rightarrow> jsstring) \<Rightarrow> jsstring \<Rightarrow> jsstring \<Rightarrow> jsstring" where
  "replace_from r f b a =
     (case matches r (b, a) of
        [] \<Rightarrow> (case a of [] \<Rightarrow> [] | c # a' \<Rightarrow> c # replace_from r f (c # b) a')
      | (b', a') # _ \<Rightarrow>
          if length a' < length a
          then f (take (length a - length a') a) @ replace_from r f b' a'
          else f [] @ (case a of [] \<Rightarrow> [] | c # a'' \<Rightarrow> c # replace_from r f (c # b) a''))"
  by pat_completeness auto
termination
  by (relation "measure (\<lambda>(r, f, b, a). length a)") auto

declare replace_from.simps [simp del]

definition replace_all :: "rx \<Rightarrow> (jsstring \<Rightarrow> jsstring) \<Rightarrow> jsstring \<Rightarrow> jsstring" where
  "replace_all r f s = replace_from r f [] s"

section \<open>Sanitizer (components module: escapeHtml and sanitizeHtml)\<close>

text \<open>The object \<^verbatim>\<open>map\<close> of \<^verbatim>\<open>escapeHtml\<close>; the keys are \<^verbatim>\<open>& < > " ' /\<close>.\<close>

definition entity_map :: "(code_unit \<times> jsstring) list" where
  "entity_map =
     [(0x26, js ''&amp;''), (0x3C, js ''&lt;''), (0x3E, js ''&gt;''),
      (0x22, js ''&quot;''), (0x27, js ''&#039;''), (0x2F, js ''&#x2F;'')]"

text \<open>The class \<^verbatim>\<open>[&<>"'\/]\<close>.\<close>

definition is_html_special :: "code_unit \<Rightarrow> bool" where
  "is_html_special c \<longleftrightarrow> c = 0x26 \<or> c = 0x3C \<or> c = 0x3E \<or> c = 0x22 \<or> c = 0x27 \<or> c = 0x2F"

text \<open>
  The callback \<^verbatim>\<open>(char) => map[char]\<close>: a key that is not in the object gives
  \<^verbatim>\<open>undefined\<close>, which \<^verbatim>\<open>replace\<close> turns into the text "undefined".
\<close>

definition entity_of :: "jsstring \<Rightarrow> jsstring" where
  "entity_of matched =
     (case matched of
        [c] \<Rightarrow> (case map_of entity_map c of Some e \<Rightarrow> e | None \<Rightarrow> js ''undefined'')
      | _ \<Rightarrow> js ''undefined'')"

definition escapeHtml :: "js_value \<Rightarrow> jsstring" where
  "escapeHtml text =
     (case text of
        JString s \<Rightarrow> replace_all (Cls is_html_special) entity_of s
      | _ \<Rightarrow> [])"

text \<open>
  The entity table in the words of the specification ("maps each of \<^verbatim>\<open>& < > " ' /\<close> to its
  named/numeric entity"), to be compared with \<open>escapeHtml\<close>.
\<close>

definition spec_entity :: "code_unit \<Rightarrow> jsstring" where
  "spec_entity c =
     (if c = 0x26 then js ''&amp;'' else if c = 0x3C then js ''&lt;''
      else if c = 0x3E then js ''&gt;'' else if c = 0x22 then js ''&quot;''
      else if c = 0x27 then js ''&#039;'' else if c = 0x2F then js ''&#x2F;'' else [c])"

text \<open>
  The six regular expressions of \<^verbatim>\<open>sanitizeHtml\<close>, all with the flags \<^verbatim>\<open>gi\<close>:
  \<^verbatim>\<open><script\b[^<]*(?:(?!<\/script>)<[^<]*)*<\/script\s*>\<close>,
  \<^verbatim>\<open>\s*on\w+\s*=\s*["'][^"']*["']\<close>, \<^verbatim>\<open>\s*on\w+\s*=\s*[^\s>]*\<close>,
  \<^verbatim>\<open>javascript\s*:\<close>, \<^verbatim>\<open>data\s*:\<close> and \<^verbatim>\<open>vbscript\s*:\<close>.
\<close>

definition not_lt :: rx where
  "not_lt = Cls (\<lambda>c. c \<noteq> 0x3C)"

definition script_rx :: rx where
  "script_rx =
     seqs [lit_ci ''<script'', WordB, Star not_lt,
           Star (seqs [NotAhead (lit_ci ''</script>''), Chr CHR ''<'', Star not_lt]),
           lit_ci ''</script'', Star (Cls is_whitespace), Chr CHR ''>'']"

definition is_quote :: "code_unit \<Rightarrow> bool" where
  "is_quote c \<longleftrightarrow> c = 0x22 \<or> c = 0x27"

definition handler_prefix :: "rx list" where
  "handler_prefix =
     [Star (Cls is_whitespace), lit_ci ''on'', Plus (Cls is_word_char),
      Star (Cls is_whitespace), Chr CHR ''='', Star (Cls is_whitespace)]"

definition quoted_handler_rx :: rx where
  "quoted_handler_rx =
     seqs (handler_prefix @ [Cls is_quote, Star (Cls (\<lambda>c. \<not> is_quote c)), Cls is_quote])"

definition unquoted_handler_rx :: rx where
  "unquoted_handler_rx =
     seqs (handler_prefix @ [Star (Cls (\<lambda>c. \<not> (is_whitespace c \<or> c = 0x3E)))])"

definition scheme_rx :: "string \<Rightarrow> rx" where
  "scheme_rx scheme = seqs [lit_ci scheme, Star (Cls is_whitespace), Chr CHR '':'']"

definition sanitizeHtml :: "js_value \<Rightarrow> jsstring" where
  "sanitizeHtml html =
     (case html of
        JString html \<Rightarrow>
          (let html = replace_all script_rx (\<lambda>_. []) html;
               html = replace_all quoted_handler_rx (\<lambda>_. []) html;
               html = replace_all unquoted_handler_rx (\<lambda>_. []) html;
               html = replace_all (scheme_rx ''javascript'') (\<lambda>_. js ''blocked:'') html;
               html = replace_all (scheme_rx ''data'') (\<lambda>_. js ''blocked:'') html;
               html = replace_all (scheme_rx ''vbscript'') (\<lambda>_. js ''blocked:'') html
           in html)
      | _ \<Rightarrow> [])"

section \<open>Token issuer (contact-form.js, generateCSRFToken and initCSRFToken)\<close>

text \<open>
  \<^verbatim>\<open>crypto.getRandomValues\<close> fills a \<^verbatim>\<open>Uint8Array(32)\<close>; the random source is the function
  giving the byte written at each index. \<^verbatim>\<open>byte.toString(16)\<close> is one or two lower-case
  hexadecimal digits, \<^verbatim>\<open>padStart(2, '0')\<close> pads it to two.
\<close>

definition hex_digit :: "nat \<Rightarrow> code_unit" where
  "hex_digit d = js ''0123456789abcdef'' ! d"

definition toString16 :: "8 word \<Rightarrow> jsstring" where
  "toString16 byte =
     (let n = unat byte
      in if n < 16 then [hex_digit n] else [hex_digit (n div 16), hex_digit (n mod 16)])"

definition padStart2 :: "jsstring \<Rightarrow> jsstring" where
  "padStart2 s = replicate (2 - length s) 0x30 @ s"

definition generateCSRFToken :: "(nat \<Rightarrow> 8 word) \<Rightarrow> jsstring" where
  "generateCSRFToken random =
     (let array = map random [0..<32]
      in concat (map (\<lambda>byte. padStart2 (toString16 byte)) array))"

section \<open>The page: elements, form and stores\<close>

text \<open>
  What the source reads and writes of the document: of an element its class list, its text
  and its \<^verbatim>\<open>style.display\<close>; of an input also its name, its value and the default it is
  reset to, and the element following it. \<open>classList\<close> is an ordered set of tokens.
\<close>

record element =
  classList :: "string list"
  textContent :: string
  display :: string

record field = element +
  name :: string
  field_value :: jsstring
  defaultValue :: jsstring
  nextElementSibling :: "element option"

record checkbox =
  checked :: bool
  defaultChecked :: bool

record button = element +
  disabled :: bool

definition classList_add :: "string \<Rightarrow> string list \<Rightarrow> string list" where
  "classList_add c cs = (if c \<in> set cs then cs else cs @ [c])"

definition classList_remove :: "string \<Rightarrow> string list \<Rightarrow> string list" where
  "classList_remove c cs = removeAll c cs"

text \<open>
  The contact form: the fields \<^verbatim>\<open>name\<close>, \<^verbatim>\<open>email\<close>, \<^verbatim>\<open>message\<close>, the checkbox
  \<^verbatim>\<open>privacy\<close>, the honeypot \<^verbatim>\<open>website\<close>, the hidden input \<^verbatim>\<open>csrf_token\<close> (the element
  \<^verbatim>\<open>initCSRFToken\<close> finds by id and \<^verbatim>\<open>handleSubmit\<close> by name; \<open>None\<close> when the form has
  none) and the submit button. The other elements \<^verbatim>\<open>handleSubmit\<close> dereferences without a
  test are taken to exist.
\<close>

record form =
  nameField :: field
  emailField :: field
  messageField :: field
  privacyField :: checkbox
  honeypotField :: field
  csrf_field :: "jsstring option"
  submitBtn :: button

text \<open>The object \<^verbatim>\<open>formData\<close> handed to the transport.\<close>

record form_data =
  data_name :: jsstring
  data_email :: jsstring
  data_message :: jsstring
  data_csrf_token :: jsstring
  data_timestamp :: int

text \<open>
  The state a submission can touch: the session-scoped key \<^verbatim>\<open>csrf_token\<close>, the durable key
  \<^verbatim>\<open>form_submissions\<close>, the form, the element \<^verbatim>\<open>form-message\<close> (\<open>None\<close> when the page has
  none), the delays of the timeouts \<^verbatim>\<open>showMessage\<close> has set, and the payloads the
  transport was called with.
\<close>

record page =
  session_csrf_token :: "jsstring option"
  local_form_submissions :: durable_store
  contact_form :: form
  messageDiv :: "element option"
  timeouts :: "nat list"
  api_calls :: "form_data list"

text \<open>
  What a call of \<^verbatim>\<open>handleSubmit\<close> takes from outside: the three readings of
  \<^verbatim>\<open>Date.now()\<close> (in \<^verbatim>\<open>checkRateLimit\<close>, in \<^verbatim>\<open>formData\<close> and in
  \<^verbatim>\<open>recordSubmission\<close>), the random source, and whether the awaited transport resolves
  (\<open>True\<close>) or rejects. The handler is modelled as one step: nothing else runs while it
  awaits the transport.
\<close>

record env =
  now_check :: int
  now_payload :: int
  now_record :: int
  random_bytes :: "nat \<Rightarrow> 8 word"
  transport :: "form_data \<Rightarrow> bool"

text \<open>\<^verbatim>\<open>simulateAPICall\<close> resolves after its delay, for every payload.\<close>

definition simulateAPICall :: "form_data \<Rightarrow> bool" where
  "simulateAPICall data = True"

definition initCSRFToken :: "(nat \<Rightarrow> 8 word) \<Rightarrow> page \<Rightarrow> jsstring \<times> page" where
  "initCSRFToken random page =
     (let (token, page) =
            (case session_csrf_token page of
               Some token \<Rightarrow>
                 if token = []
                 then (let token = generateCSRFToken random
                       in (token, page\<lparr>session_csrf_token := Some token\<rparr>))
                 else (token, page)
             | None \<Rightarrow>
                 (let token = generateCSRFToken random
                  in (token, page\<lparr>session_csrf_token := Some token\<rparr>)));
          form = contact_form page;
          form = (case csrf_field form of
                    Some _ \<Rightarrow> form\<lparr>csrf_field := Some token\<rparr>
                  | None \<Rightarrow> form)
      in (token, page\<lparr>contact_form := form\<rparr>))"

section \<open>Field validator (contact-form.js, validateField)\<close>

text \<open>The class \<^verbatim>\<open>[a-zA-Z\s'-]\<close> and the class \<^verbatim>\<open>[^\s@]\<close>.\<close>

definition is_name_char :: "code_unit \<Rightarrow> bool" where
  "is_name_char c \<longleftrightarrow> is_ascii_letter c \<or> is_whitespace c \<or> c = 0x27 \<or> c = 0x2D"

definition is_email_char :: "code_unit \<Rightarrow> bool" where
  "is_email_char c \<longleftrightarrow> \<not> (is_whitespace c \<or> c = 0x40)"

text \<open>\<^verbatim>\<open>/^[a-zA-Z\s'-]+$/\<close> and \<^verbatim>\<open>/^[^\s@]+@[^\s@]+\.[^\s@]+$/\<close>\<close>

definition name_rx :: rx where
  "name_rx = seqs [Bol, Plus (Cls is_name_char), Eol]"

definition emailRegex :: rx where
  "emailRegex =
     seqs [Bol, Plus (Cls is_email_char), Chr CHR ''@'', Plus (Cls is_email_char),
           Chr CHR ''.'', Plus (Cls is_email_char), Eol]"

text \<open>The \<^verbatim>\<open>switch\<close> of \<^verbatim>\<open>validateField\<close>: the verdict and the error message.\<close>

definition field_rule :: "string \<Rightarrow> jsstring \<Rightarrow> bool \<times> string" where
  "field_rule fieldName v =
     (if fieldName = ''name'' then
        (if length v < 2 \<or> length v > 100
         then (False, ''Name must be between 2 and 100 characters'')
         else if \<not> test name_rx v
         then (False, ''Name can only contain letters, spaces, hyphens, and apostrophes'')
         else (True, []))
      else if fieldName = ''email'' then
        (if \<not> test emailRegex v
         then (False, ''Please enter a valid email address'')
         else (True, []))
      else if fieldName = ''message'' then
        (if length v < 10 \<or> length v > 2000
         then (False, ''Message must be between 10 and 2000 characters'')
         else (True, []))
      else (True, []))"

definition has_invalid_feedback :: "element \<Rightarrow> bool" where
  "has_invalid_feedback feedback \<longleftrightarrow> ''invalid-feedback'' \<in> set (classList feedback)"

definition validateField :: "field \<Rightarrow> bool \<times> field" where
  "validateField field =
     (let v = trim (field_value field);
          fieldName = name field;
          (isValid, errorMessage) = field_rule fieldName v;
          feedback = nextElementSibling field
      in if isValid
         then (isValid,
               field\<lparr>classList := classList_add ''is-valid''
                                   (classList_remove ''is-invalid'' (classList field)),
                     nextElementSibling :=
                       (case feedback of
                          Some fb \<Rightarrow>
                            if has_invalid_feedback fb then Some (fb\<lparr>display := ''none''\<rparr>)
                            else feedback
                        | None \<Rightarrow> feedback)\<rparr>)
         else (isValid,
               field\<lparr>classList := classList_add ''is-invalid''
                                   (classList_remove ''is-valid'' (classList field)),
                     nextElementSibling :=
                       (case feedback of
                          Some fb \<Rightarrow>
                            if has_invalid_feedback fb
                            then Some (fb\<lparr>textContent := errorMessage, display := ''block''\<rparr>)
                            else feedback
                        | None \<Rightarrow> feedback)\<rparr>))"

section \<open>Submission controller (contact-form.js, showMessage and handleSubmit)\<close>

text \<open>
  \<^verbatim>\<open>showMessage\<close>: nothing when the page has no \<^verbatim>\<open>form-message\<close> element; a success message
  also sets the timeout of 5000 ms that hides it again.
\<close>

definition showMessage :: "string \<Rightarrow> string \<Rightarrow> page \<Rightarrow> page" where
  "showMessage type msg page =
     (case messageDiv page of
        None \<Rightarrow> page
      | Some el \<Rightarrow>
          (let el = el\<lparr>classList := [''alert'', ''alert-'' @ type],
                        textContent := msg, display := ''block''\<rparr>;
               page = page\<lparr>messageDiv := Some el\<rparr>
           in if type = ''success'' then page\<lparr>timeouts := timeouts page @ [5000]\<rparr> else page))"

text \<open>
  \<^verbatim>\<open>form.reset()\<close> puts every input back to its default. The hidden token input keeps its
  value: the value of a hidden input is its \<^verbatim>\<open>value\<close> attribute, which is what a reset
  restores.
\<close>

definition reset_field :: "field \<Rightarrow> field" where
  "reset_field f = f\<lparr>field_value := defaultValue f\<rparr>"

definition form_reset :: "form \<Rightarrow> form" where
  "form_reset form =
     form\<lparr>nameField := reset_field (nameField form),
           emailField := reset_field (emailField form),
           messageField := reset_field (messageField form),
           honeypotField := reset_field (honeypotField form),
           privacyField := (privacyField form)\<lparr>checked := defaultChecked (privacyField form)\<rparr>\<rparr>"

text \<open>
  \<^verbatim>\<open>form.querySelectorAll('.is-valid, .is-invalid')\<close> with the removal of both classes,
  over the inputs of the form.
\<close>

definition remove_validation :: "field \<Rightarrow> field" where
  "remove_validation f =
     f\<lparr>classList := classList_remove ''is-invalid'' (classList_remove ''is-valid'' (classList f))\<rparr>"

definition remove_validation_classes :: "form \<Rightarrow> form" where
  "remove_validation_classes form =
     form\<lparr>nameField := remove_validation (nameField form),
           emailField := remove_validation (emailField form),
           messageField := remove_validation (messageField form),
           honeypotField := remove_validation (honeypotField form)\<rparr>"

text \<open>
  The points at which \<^verbatim>\<open>handleSubmit\<close> ends: the three early returns, the end of the
  \<^verbatim>\<open>try\<close> block and the \<^verbatim>\<open>catch\<close> block.
\<close>

datatype exit_point =
    RateLimitExit
  | HoneypotExit
  | ValidationExit
  | SuccessExit
  | ErrorExit

text \<open>
  The \<^verbatim>\<open>try\<close> block behind the awaited transport: record the submission, show the success
  message, reset the form, remove the validation classes and call \<^verbatim>\<open>initCSRFToken\<close>.
\<close>

definition after_success :: "env \<Rightarrow> page \<Rightarrow> page" where
  "after_success env page =
     (let page = page\<lparr>local_form_submissions :=
                        recordSubmission (local_form_submissions page) (now_record env)\<rparr>;
          page = showMessage ''success''
                   ''Thank you for your message! I will get back to you soon.'' page;
          page = page\<lparr>contact_form := form_reset (contact_form page)\<rparr>;
          page = page\<lparr>contact_form := remove_validation_classes (contact_form page)\<rparr>
      in snd (initCSRFToken (random_bytes env) page))"

definition catch_error :: "page \<Rightarrow> page" where
  "catch_error page =
     showMessage ''danger''
       ''An error occurred while sending your message. Please try again later.'' page"

text \<open>
  The object \<^verbatim>\<open>formData\<close> of the \<^verbatim>\<open>try\<close> block, then the steps from the disabling of the
  button to the \<^verbatim>\<open>finally\<close> block. Reading the value of a missing
  token input throws inside the \<^verbatim>\<open>try\<close> block, before the transport is called.
\<close>

definition formData_of :: "env \<Rightarrow> form \<Rightarrow> jsstring \<Rightarrow> form_data" where
  "formData_of env form token =
     \<lparr>data_name = trim (field_value (nameField form)),
      data_email = trim (field_value (emailField form)),
      data_message = trim (field_value (messageField form)),
      data_csrf_token = token,
      data_timestamp = now_payload env\<rparr>"

definition send_form :: "env \<Rightarrow> page \<Rightarrow> exit_point \<times> page" where
  "send_form env page =
     (let form = contact_form page;
          btn = submitBtn form;
          originalText = textContent btn;
          btn = btn\<lparr>disabled := True, classList := classList_add ''btn-loading'' (classList btn),
                    textContent := ''Sending...''\<rparr>;
          page = page\<lparr>contact_form := form\<lparr>submitBtn := btn\<rparr>\<rparr>;
          (exit, page) =
            (case csrf_field form of
               None \<Rightarrow> (ErrorExit, catch_error page)
             | Some token \<Rightarrow>
                 (let formData = formData_of env form token;
                      page = page\<lparr>api_calls := api_calls page @ [formData]\<rparr>
                  in if transport env formData
                     then (SuccessExit, after_success env page)
                     else (ErrorExit, catch_error page)));
          form = contact_form page;
          btn = submitBtn form;
          btn = btn\<lparr>disabled := False, classList := classList_remove ''btn-loading'' (classList btn),
                    textContent := originalText\<rparr>
      in (exit, page\<lparr>contact_form := form\<lparr>submitBtn := btn\<rparr>\<rparr>))"

definition handleSubmit :: "env \<Rightarrow> page \<Rightarrow> exit_point \<times> page" where
  "handleSubmit env page =
     (let form = contact_form page;
          rateLimit = checkRateLimit (local_form_submissions page) (now_check env)
      in if \<not> allowed rateLimit
         then (RateLimitExit,
               showMessage ''danger''
                 (case message rateLimit of Some m \<Rightarrow> m | None \<Rightarrow> ''undefined'') page)
         else
           (let (nameValid, nameField') = validateField (nameField form);
                (emailValid, emailField') = validateField (emailField form);
                (messageValid, messageField') = validateField (messageField form);
                form = form\<lparr>nameField := nameField', emailField := emailField',
                            messageField := messageField'\<rparr>;
                page = page\<lparr>contact_form := form\<rparr>;
                isFormValid = (nameValid \<and> emailValid \<and> messageValid);
                page = (if \<not> checked (privacyField form)
                        then showMessage ''danger''
                               ''Please accept the privacy policy to continue.'' page
                        else page);
                isFormValid = (isFormValid \<and> checked (privacyField form))
            in if trim (field_value (honeypotField form)) \<noteq> []
               then (HoneypotExit, showMessage ''danger'' ''Invalid submission detected.'' page)
               else if \<not> isFormValid
               then (ValidationExit,
                     showMessage ''danger'' ''Please correct the errors in the form.'' page)
               else send_form env page))"

text \<open>
  \<^verbatim>\<open>initContactForm\<close>, as far as the state goes: the token is initialised when the page
  loads.
\<close>

definition initContactForm :: "(nat \<Rightarrow> 8 word) \<Rightarrow> page \<Rightarrow> page" where
  "initContactForm random page = snd (initCSRFToken random page)"

section \<open>Notions used to state the properties\<close>

text \<open>
  The language of a regular expression built from classes, sequence and star only, as a
  set of strings; the iterations of \<open>star\<close> are non-empty, which gives the same set.
  The assertions (\<open>Bol\<close>, \<open>Eol\<close>, \<open>WordB\<close>, \<open>NotAhead\<close>) are not \<open>plain\<close>.
\<close>

inductive_set star :: "jsstring set \<Rightarrow> jsstring set" for L :: "jsstring set" where
  star_empty: "[] \<in> star L"
| star_step: "u \<in> L \<Longrightarrow> u \<noteq> [] \<Longrightarrow> v \<in> star L \<Longrightarrow> u @ v \<in> star L"

fun lang :: "rx \<Rightarrow> jsstring set" where
  "lang (Cls P) = {[c] | c. P c}"
| "lang Eps = {[]}"
| "lang (Seq r1 r2) = {u @ v | u v. u \<in> lang r1 \<and> v \<in> lang r2}"
| "lang (Star r) = star (lang r)"
| "lang (NotAhead r) = {}"
| "lang WordB = {}"
| "lang Bol = {}"
| "lang Eol = {}"

fun plain :: "rx \<Rightarrow> bool" where
  "plain (Cls P) = True"
| "plain Eps = True"
| "plain (Seq r1 r2) = (plain r1 \<and> plain r2)"
| "plain (Star r) = plain r"
| "plain (NotAhead r) = False"
| "plain WordB = False"
| "plain Bol = False"
| "plain Eol = False"

text \<open>The part of \<open>emailRegex\<close> between the anchors, associated to the left.\<close>

definition email_body :: rx where
  "email_body =
     Seq (Seq (Seq (Seq (Plus (Cls is_email_char)) (Chr CHR ''@'')) (Plus (Cls is_email_char)))
              (Chr CHR ''.'')) (Plus (Cls is_email_char))"

text \<open>
  The characters of a name in the words of the specification: "letters, spaces, hyphens,
  apostrophes", with the letters of \<^verbatim>\<open>[a-zA-Z]\<close> and the space U+0020.
\<close>

definition spec_name_char :: "code_unit \<Rightarrow> bool" where
  "spec_name_char c \<longleftrightarrow> is_ascii_letter c \<or> c = 0x20 \<or> c = 0x2D \<or> c = 0x27"

text \<open>
  The two conditions \<^verbatim>\<open>handleSubmit\<close> branches on after the validation block, and the form
  as the three calls of \<^verbatim>\<open>validateField\<close> leave it.
\<close>

definition form_valid :: "form \<Rightarrow> bool" where
  "form_valid form \<longleftrightarrow>
     fst (validateField (nameField form)) \<and> fst (validateField (emailField form)) \<and>
     fst (validateField (messageField form)) \<and> checked (privacyField form)"

definition honeypot_filled :: "form \<Rightarrow> bool" where
  "honeypot_filled form \<longleftrightarrow> trim (field_value (honeypotField form)) \<noteq> []"

definition validated :: "form \<Rightarrow> form" where
  "validated form =
     form\<lparr>nameField := snd (validateField (nameField form)),
           emailField := snd (validateField (emailField form)),
           messageField := snd (validateField (messageField form))\<rparr>"

text \<open>
  A concrete page for the examples: inputs followed by an \<^verbatim>\<open>invalid-feedback\<close> element, a
  hidden token input, a message element, and stores as given.
\<close>

definition text_input :: "string \<Rightarrow> jsstring \<Rightarrow> field" where
  "text_input n v =
     \<lparr>classList = [''form-control''], textContent = [], display = [],
      name = n, field_value = v, defaultValue = [],
      nextElementSibling =
        Some \<lparr>classList = [''invalid-feedback''], textContent = [], display = []\<rparr>\<rparr>"

definition sample_form :: "jsstring \<Rightarrow> jsstring \<Rightarrow> jsstring \<Rightarrow> jsstring \<Rightarrow> bool \<Rightarrow> form" where
  "sample_form n e m website consent =
     \<lparr>nameField = text_input ''name'' n,
      emailField = text_input ''email'' e,
      messageField = text_input ''message'' m,
      privacyField = \<lparr>checked = consent, defaultChecked = False\<rparr>,
      honeypotField = text_input ''website'' website,
      csrf_field = Some [],
      submitBtn = \<lparr>classList = [''btn''], textContent = ''Send Message'', display = [],
                   disabled = False\<rparr>\<rparr>"

definition sample_page :: "form \<Rightarrow> durable_store \<Rightarrow> page" where
  "sample_page form store =
     \<lparr>session_csrf_token = None,
      local_form_submissions = store,
      contact_form = form,
      messageDiv = Some \<lparr>classList = [], textContent = [], display = ''none''\<rparr>,
      timeouts = [],
      api_calls = []\<rparr>"

definition sample_env :: "int \<Rightarrow> (nat \<Rightarrow> 8 word) \<Rightarrow> env" where
  "sample_env now random =
     \<lparr>now_check = now, now_payload = now, now_record = now + 1500,
      random_bytes = random, transport = simulateAPICall\<rparr>"

text \<open>
  Three fillings of the form: the valid submission of the scenarios, the same with invalid
  name and message, and that one with the honeypot filled as well.
\<close>

definition john_doe :: form where
  "john_doe = sample_form (js ''John Doe'') (js ''john@example.com'')
                (js ''Hello, this is a test message.'') [] True"

definition spam_bot :: form where
  "spam_bot = sample_form (js ''J'') (js ''john@example.com'') (js ''short'')
                (js ''http://spam.example'') True"

definition short_form :: form where
  "short_form = sample_form (js ''J'') (js ''john@example.com'') (js ''short'') [] True"

section \<open>Properties of the rate limiter\<close>

lemma recordSubmission_length:
  "length (stored_submissions (recordSubmission item now)) =
     (if length (stored_submissions item) < 10 then length (stored_submissions item) + 1
      else length (stored_submissions item))"
  by (simp add: recordSubmission_def stored_submissions_def Let_def)

lemma record_fold_bound:
  "length (stored_submissions item) \<le> 10 \<Longrightarrow>
   length (stored_submissions (fold (\<lambda>now item. recordSubmission item now) stamps item)) \<le> 10"
proof (induction stamps arbitrary: item)
  case Nil
  then show ?case by simp
next
  case (Cons t stamps)
  have "length (stored_submissions (recordSubmission item t)) \<le> 10"
    using Cons.prems by (simp add: recordSubmission_length)
  then show ?case using Cons.IH by simp
qed

lemma minutesLeft_ceiling:
  "t \<le> 60000 * minutesLeft t \<and> 60000 * minutesLeft t < t + 60000"
proof -
  define d where "d = (- t) div 60000"
  define r where "r = (- t) mod 60000"
  have "(- t) = 60000 * d + r" unfolding d_def r_def by simp
  moreover have "0 \<le> r" "r < 60000" unfolding r_def by simp_all
  ultimately have "t \<le> 60000 * - d" "60000 * - d < t + 60000" by linarith+
  then show ?thesis unfolding minutesLeft_def d_def[symmetric] by simp
qed

lemma timeUntilNext_positive:
  assumes "recent = recentSubmissions submissions now" and "recent \<noteq> []"
  shows "Min (set recent) \<in> set recent" and "0 < timeUntilNext recent now"
proof -
  show m: "Min (set recent) \<in> set recent"
    using assms(2) by simp
  then have "now - Min (set recent) < oneHour"
    unfolding assms(1) recentSubmissions_def by simp
  then show "0 < timeUntilNext recent now"
    by (simp add: timeUntilNext_def)
qed

lemma checkRateLimit_allowed:
  "allowed (checkRateLimit item now) =
     (length (recentSubmissions (stored_submissions item) now) < 3)"
  by (auto simp: checkRateLimit_def Let_def)

lemma checkRateLimit_message:
  "\<not> allowed (checkRateLimit item now) \<Longrightarrow>
   message (checkRateLimit item now) =
     Some (rate_limit_message
       (minutesLeft (timeUntilNext (recentSubmissions (stored_submissions item) now) now)))"
  by (auto simp: checkRateLimit_def Let_def split: if_splits)

text \<open>
  C4 (as amended). The filter of \<open>checkRateLimit\<close> keeps every entry \<open>t\<close> with
  \<open>now - t < 3,600,000\<close>: it has no upper bound at \<open>now\<close>, so an entry later than
  \<open>now\<close> counts as recent. The check allows exactly when fewer than 3 stored entries pass
  that filter; when no stored entry is later than \<open>now\<close> these are the entries of the
  trailing window \<open>(now - 3,600,000, now]\<close>. When the check denies, the retry-after value
  is (earliest kept entry + 3,600,000 - now), it is positive, and the message shows it
  rounded up to whole minutes (at least 1).
\<close>

theorem checkRateLimit_admission:
  "(allowed (checkRateLimit item now) \<longleftrightarrow>
      length (filter (\<lambda>t. now - t < 3600000) (stored_submissions item)) < 3) \<and>
   ((\<forall>t \<in> set (stored_submissions item). t \<le> now) \<longrightarrow>
      (allowed (checkRateLimit item now) \<longleftrightarrow>
         length (filter (\<lambda>t. now - 3600000 < t \<and> t \<le> now) (stored_submissions item)) < 3)) \<and>
   (\<not> allowed (checkRateLimit item now) \<longrightarrow>
      (let recent = filter (\<lambda>t. now - t < 3600000) (stored_submissions item);
           retryAfter = Min (set recent) + 3600000 - now
       in Min (set recent) \<in> set recent \<and> (\<forall>t \<in> set recent. Min (set recent) \<le> t) \<and>
          0 < retryAfter \<and>
          (\<exists>m. message (checkRateLimit item now) = Some (rate_limit_message m) \<and>
               retryAfter \<le> 60000 * m \<and> 60000 * m < retryAfter + 60000 \<and> 1 \<le> m)))"
proof (intro conjI impI)
  show a: "allowed (checkRateLimit item now) \<longleftrightarrow>
      length (filter (\<lambda>t. now - t < 3600000) (stored_submissions item)) < 3"
    by (simp add: checkRateLimit_allowed recentSubmissions_def oneHour_def)
  {
    assume le: "\<forall>t \<in> set (stored_submissions item). t \<le> now"
    have "filter (\<lambda>t. now - 3600000 < t \<and> t \<le> now) (stored_submissions item) =
          filter (\<lambda>t. now - t < 3600000) (stored_submissions item)"
      using le by (intro filter_cong) auto
    then show "allowed (checkRateLimit item now) \<longleftrightarrow>
         length (filter (\<lambda>t. now - 3600000 < t \<and> t \<le> now) (stored_submissions item)) < 3"
      using a by simp
  }
  {
    assume denied: "\<not> allowed (checkRateLimit item now)"
    define recent where "recent = recentSubmissions (stored_submissions item) now"
    have r: "recent = filter (\<lambda>t. now - t < 3600000) (stored_submissions item)"
      by (simp add: recent_def recentSubmissions_def oneHour_def)
    have "length recent \<ge> 3"
      using denied by (simp add: checkRateLimit_allowed recent_def)
    then have ne: "recent \<noteq> []" by auto
    have m: "Min (set recent) \<in> set recent" and p: "0 < timeUntilNext recent now"
      using timeUntilNext_positive [OF recent_def ne] by simp_all
    have t: "timeUntilNext recent now = Min (set recent) + 3600000 - now"
      by (simp add: timeUntilNext_def oneHour_def)
    have msg: "message (checkRateLimit item now) =
        Some (rate_limit_message (minutesLeft (timeUntilNext recent now)))"
      using checkRateLimit_message [OF denied] by (simp add: recent_def)
    have c: "timeUntilNext recent now \<le> 60000 * minutesLeft (timeUntilNext recent now)"
        "60000 * minutesLeft (timeUntilNext recent now) < timeUntilNext recent now + 60000"
      using minutesLeft_ceiling [of "timeUntilNext recent now"] by simp_all
    have one: "1 \<le> minutesLeft (timeUntilNext recent now)"
      using c p by linarith
    have low: "\<forall>t \<in> set recent. Min (set recent) \<le> t"
      by simp
    show "let recent = filter (\<lambda>t. now - t < 3600000) (stored_submissions item);
           retryAfter = Min (set recent) + 3600000 - now
       in Min (set recent) \<in> set recent \<and> (\<forall>t \<in> set recent. Min (set recent) \<le> t) \<and>
          0 < retryAfter \<and>
          (\<exists>m. message (checkRateLimit item now) = Some (rate_limit_message m) \<and>
               retryAfter \<le> 60000 * m \<and> 60000 * m < retryAfter + 60000 \<and> 1 \<le> m)"
      unfolding Let_def r [symmetric] t [symmetric]
      using m low p msg c one by blast
  }
qed

theorem checkRateLimit_admission_witness:
  "\<not> allowed (checkRateLimit (Some [7000, 8000, 9000]) 10000) \<and>
   message (checkRateLimit (Some [7000, 8000, 9000]) 10000) =
     Some ''Rate limit exceeded. Please try again in 60 minute(s).'' \<and>
   list_all (\<lambda>t. t \<le> 10000) (stored_submissions (Some [7000, 8000, 9000])) \<and>
   \<not> length (filter (\<lambda>t. 10000 - 3600000 < t \<and> t \<le> 10000)
        (stored_submissions (Some [7000, 8000, 9000 :: int]))) < 3"
  using checkRateLimit_admission [of "Some [7000, 8000, 9000]" 10000]
  by (simp add: checkRateLimit_def recentSubmissions_def stored_submissions_def oneHour_def
      timeUntilNext_def minutesLeft_def Let_def rate_limit_message_def number_to_string_def
      digits.simps)

theorem checkRateLimit_later_entries_counterexample:
  "\<not> (allowed (checkRateLimit (Some [10001, 10002, 10003]) 10000) \<longleftrightarrow>
      length (filter (\<lambda>t. 10000 - 3600000 < t \<and> t \<le> 10000) [10001, 10002, 10003 :: int]) < 3)"
  by (simp add: checkRateLimit_def recentSubmissions_def stored_submissions_def oneHour_def
      Let_def)

lemma record_all_snoc:
  "record_all (stamps @ [now]) = recordSubmission (record_all stamps) now"
  by (simp add: record_all_def)

lemma record_all_bound: "length (stored_submissions (record_all stamps)) \<le> 10"
  unfolding record_all_def by (rule record_fold_bound) (simp add: stored_submissions_def)

lemma evict_until_cap_short: "length xs \<le> 10 \<Longrightarrow> evict_until_cap xs = xs"
  by (subst evict_until_cap.simps) simp

lemma evict_until_cap_eleven: "length xs = 11 \<Longrightarrow> evict_until_cap xs = tl xs"
  by (subst evict_until_cap.simps) (simp add: evict_until_cap_short)

lemma recordSubmission_capped:
  assumes "length (stored_submissions item) \<le> 10"
  shows "recordSubmission item now = spec_recordSubmission item now"
    and "stored_submissions (recordSubmission item now) =
           (if length (stored_submissions item) < 10 then stored_submissions item @ [now]
            else tl (stored_submissions item) @ [now])"
proof -
  show "recordSubmission item now = spec_recordSubmission item now"
  proof (cases "length (stored_submissions item) < 10")
    case True
    then show ?thesis
      by (simp add: recordSubmission_def spec_recordSubmission_def Let_def evict_until_cap_short)
  next
    case False
    then have "length (stored_submissions item @ [now]) = 11" using assms by simp
    then show ?thesis
      by (simp add: recordSubmission_def spec_recordSubmission_def Let_def evict_until_cap_eleven)
  qed
  show "stored_submissions (recordSubmission item now) =
           (if length (stored_submissions item) < 10 then stored_submissions item @ [now]
            else tl (stored_submissions item) @ [now])"
    using assms
    by (cases "stored_submissions item")
       (auto simp: recordSubmission_def stored_submissions_def Let_def)
qed

text \<open>
  C5. The key \<^verbatim>\<open>form_submissions\<close> is written by \<open>recordSubmission\<close> only, so the prior
  states of the durable store are those built from an absent key by a run of recorded
  submissions. On every such store \<open>recordSubmission\<close> does what the specification says:
  it appends the timestamp and evicts from the front until the length is 10. The new length
  is \<open>min (previous + 1) 10\<close>, the entry dropped (if any) is the oldest, the result is again
  such a store, and no such store has more than 10 entries.
\<close>

theorem recordSubmission_evicts_oldest:
  "recordSubmission (record_all stamps) now = spec_recordSubmission (record_all stamps) now \<and>
   length (stored_submissions (recordSubmission (record_all stamps) now)) =
     min (length (stored_submissions (record_all stamps)) + 1) 10 \<and>
   stored_submissions (recordSubmission (record_all stamps) now) =
     (if length (stored_submissions (record_all stamps)) < 10
      then stored_submissions (record_all stamps) @ [now]
      else tl (stored_submissions (record_all stamps)) @ [now]) \<and>
   length (stored_submissions (record_all stamps)) \<le> 10 \<and>
   length (stored_submissions (recordSubmission (record_all stamps) now)) \<le> 10 \<and>
   record_all (stamps @ [now]) = recordSubmission (record_all stamps) now"
  using recordSubmission_capped [OF record_all_bound, of stamps now]
    record_all_bound [of stamps] record_all_bound [of "stamps @ [now]"]
  by (simp add: recordSubmission_length record_all_snoc)

theorem recordSubmission_evicts_oldest_witness:
  "stored_submissions (record_all [1, 2, 3, 4, 5, 6, 7, 8, 9, 10, 11]) =
     [2, 3, 4, 5, 6, 7, 8, 9, 10, 11] \<and>
   recordSubmission (record_all [1, 2, 3, 4, 5, 6, 7, 8, 9, 10, 11]) 12 =
     Some [3, 4, 5, 6, 7, 8, 9, 10, 11, 12] \<and>
   spec_recordSubmission (record_all [1, 2, 3, 4, 5, 6, 7, 8, 9, 10, 11]) 12 =
     Some [3, 4, 5, 6, 7, 8, 9, 10, 11, 12] \<and>
   recordSubmission (record_all [1, 2, 3]) 4 = Some [1, 2, 3, 4]"
proof -
  have r: "record_all [1, 2, 3, 4, 5, 6, 7, 8, 9, 10, 11] = Some [2, 3, 4, 5, 6, 7, 8, 9, 10, 11]"
    by (simp add: record_all_def recordSubmission_def stored_submissions_def Let_def)
  have s: "record_all [1, 2, 3] = Some [1, 2, 3]"
    by (simp add: record_all_def recordSubmission_def stored_submissions_def Let_def)
  have a: "recordSubmission (Some [2, 3, 4, 5, 6, 7, 8, 9, 10, 11]) 12 =
      Some [3, 4, 5, 6, 7, 8, 9, 10, 11, 12]"
    by (simp add: recordSubmission_def stored_submissions_def Let_def)
  have b: "recordSubmission (Some [1, 2, 3]) 4 = Some [1, 2, 3, 4]"
    by (simp add: recordSubmission_def stored_submissions_def Let_def)
  have "spec_recordSubmission (record_all [1, 2, 3, 4, 5, 6, 7, 8, 9, 10, 11]) 12 =
      recordSubmission (record_all [1, 2, 3, 4, 5, 6, 7, 8, 9, 10, 11]) 12"
    using recordSubmission_evicts_oldest [of "[1, 2, 3, 4, 5, 6, 7, 8, 9, 10, 11]" 12] by simp
  then show ?thesis
    by (simp add: r s a b stored_submissions_def)
qed

section \<open>Properties of the sanitizer\<close>

lemma replace_from_Cls:
  "replace_from (Cls P) f b a = concat (map (\<lambda>c. if P c then f [c] else [c]) a)"
proof (induction a arbitrary: b)
  case Nil
  show ?case by (simp add: replace_from.simps [of _ _ _ "[]"])
next
  case (Cons c a)
  show ?case
    by (subst replace_from.simps) (simp add: Cons.IH)
qed

lemma replace_entity:
  "(if is_html_special c then entity_of [c] else [c]) = spec_entity c"
  by (simp add: spec_entity_def is_html_special_def entity_of_def entity_map_def)

lemma escapeHtml_concat:
  "escapeHtml (JString s) = concat (map spec_entity s)"
  by (simp add: escapeHtml_def replace_all_def replace_from_Cls replace_entity)

lemma spec_entity_no_raw:
  "x \<in> set (spec_entity c) \<Longrightarrow>
   x \<noteq> 0x3C \<and> x \<noteq> 0x3E \<and> x \<noteq> 0x22 \<and> x \<noteq> 0x27 \<and> x \<noteq> 0x2F"
  by (auto simp: spec_entity_def js_def split: if_splits)

lemma spec_entity_amp:
  "i < length (spec_entity c) \<Longrightarrow> spec_entity c ! i = 0x26 \<Longrightarrow>
   i = 0 \<and> spec_entity c \<in> snd ` set entity_map"
  by (auto simp: spec_entity_def js_def entity_map_def nth_Cons' split: if_splits)

lemma escaped_amp_starts_entity:
  "i < length (concat (map spec_entity s)) \<Longrightarrow> concat (map spec_entity s) ! i = 0x26 \<Longrightarrow>
   \<exists>e \<in> snd ` set entity_map. take (length e) (drop i (concat (map spec_entity s))) = e"
proof (induction s arbitrary: i)
  case Nil
  then show ?case by simp
next
  case (Cons c s)
  let ?e = "spec_entity c" and ?rest = "concat (map spec_entity s)"
  show ?case
  proof (cases "i < length ?e")
    case True
    then have "?e ! i = 0x26" using Cons.prems(2) by (simp add: nth_append)
    then have "i = 0" "?e \<in> snd ` set entity_map"
      using spec_entity_amp [OF True] by simp_all
    then show ?thesis by (intro bexI [of _ ?e]) simp_all
  next
    case False
    then have "i - length ?e < length ?rest" "?rest ! (i - length ?e) = 0x26"
      using Cons.prems by (simp_all add: nth_append)
    then obtain e where "e \<in> snd ` set entity_map"
        "take (length e) (drop (i - length ?e) ?rest) = e"
      using Cons.IH by blast
    then show ?thesis using False by (intro bexI [of _ e]) simp_all
  qed
qed

text \<open>
  C6. For every string, \<open>escapeHtml\<close> maps each occurrence of \<^verbatim>\<open>& < > " ' /\<close> to its entity
  and leaves every other code unit alone. Its output contains no \<^verbatim>\<open>< > " ' /\<close> at all, and
  every \<^verbatim>\<open>&\<close> in it is the first character of one of the six entities, so none of the six
  characters occurs raw. For every input that is not a string it returns the empty string.
\<close>

theorem escapeHtml_no_raw_specials:
  "escapeHtml (JString s) = concat (map spec_entity s) \<and>
   (\<forall>x \<in> set (escapeHtml (JString s)).
      x \<noteq> 0x3C \<and> x \<noteq> 0x3E \<and> x \<noteq> 0x22 \<and> x \<noteq> 0x27 \<and> x \<noteq> 0x2F) \<and>
   (\<forall>i < length (escapeHtml (JString s)).
      escapeHtml (JString s) ! i = 0x26 \<longrightarrow>
      (\<exists>e \<in> snd ` set entity_map.
         take (length e) (drop i (escapeHtml (JString s))) = e)) \<and>
   ((\<forall>t. v \<noteq> JString t) \<longrightarrow> escapeHtml v = [])"
proof (intro conjI)
  show "escapeHtml (JString s) = concat (map spec_entity s)"
    by (rule escapeHtml_concat)
  show "\<forall>x \<in> set (escapeHtml (JString s)).
      x \<noteq> 0x3C \<and> x \<noteq> 0x3E \<and> x \<noteq> 0x22 \<and> x \<noteq> 0x27 \<and> x \<noteq> 0x2F"
    unfolding escapeHtml_concat using spec_entity_no_raw by auto
  show "\<forall>i < length (escapeHtml (JString s)).
      escapeHtml (JString s) ! i = 0x26 \<longrightarrow>
      (\<exists>e \<in> snd ` set entity_map.
         take (length e) (drop i (escapeHtml (JString s))) = e)"
    unfolding escapeHtml_concat using escaped_amp_starts_entity by blast
  show "(\<forall>t. v \<noteq> JString t) \<longrightarrow> escapeHtml v = []"
    by (cases v) (simp_all add: escapeHtml_def)
qed

theorem escapeHtml_no_raw_specials_witness:
  "escapeHtml (JString (js ''<a b=1>&/'')) = js ''&lt;a b=1&gt;&amp;&#x2F;'' \<and>
   escapeHtml (JString [0x22, 0x27]) = js ''&quot;&#039;'' \<and>
   escapeHtml (JNumber 5) = []"
proof -
  have "escapeHtml (JString [0x22, 0x27]) = js ''&quot;&#039;''"
    using escapeHtml_no_raw_specials [of "[0x22, 0x27]" JNull]
    by (simp add: spec_entity_def js_def)
  moreover have "escapeHtml (JString (js ''<a b=1>&/'')) = js ''&lt;a b=1&gt;&amp;&#x2F;'' \<and>
      escapeHtml (JNumber 5) = []"
    using escapeHtml_no_raw_specials [of "js ''<a b=1>&/''" "JNumber 5"]
    by (simp add: spec_entity_def js_def)
  ultimately show ?thesis by simp
qed

lemma sanitizeHtml_example:
  "sanitizeHtml (JString (js ''<p onclick=x>a<script>b</script>'')) = js ''<p>a''"
  by code_simp

text \<open>
  C10. \<open>sanitizeHtml\<close> is a total function of its argument (the regular expression
  matcher and the replacement scan terminate on every string), and for every input that is
  not a string it returns the empty string.
\<close>

theorem sanitizeHtml_non_string:
  "(\<forall>t. v \<noteq> JString t) \<longrightarrow> sanitizeHtml v = []"
  by (cases v) (simp_all add: sanitizeHtml_def)

theorem sanitizeHtml_non_string_witness:
  "sanitizeHtml JUndefined = [] \<and> sanitizeHtml (JNumber 42) = [] \<and> sanitizeHtml JObject = []"
  using sanitizeHtml_non_string [of JUndefined] sanitizeHtml_non_string [of "JNumber 42"]
    sanitizeHtml_non_string [of JObject]
  by simp


section \<open>Properties of the matcher and the field validator\<close>

lemma matches_Star_iff:
  assumes inner: "\<And>b a st'. st' \<in> set (matches r (b, a)) \<longleftrightarrow>
      (\<exists>u t. a = u @ t \<and> u \<in> lang r \<and> st' = (rev u @ b, t))"
  shows "st' \<in> set (matches (Star r) (b, a)) \<longleftrightarrow>
      (\<exists>u t. a = u @ t \<and> u \<in> star (lang r) \<and> st' = (rev u @ b, t))"
proof (induction "length a" arbitrary: a b st' rule: less_induct)
  case less
  have unfold: "st' \<in> set (matches (Star r) (b, a)) \<longleftrightarrow>
      st' = (b, a) \<or>
      (\<exists>mid \<in> set (matches r (b, a)). length (snd mid) < length a \<and>
          st' \<in> set (matches (Star r) mid))"
    by (subst matches.simps(5)) (auto split: if_splits)
  show ?case
  proof
    assume "st' \<in> set (matches (Star r) (b, a))"
    then consider "st' = (b, a)"
      | mid where "mid \<in> set (matches r (b, a))" "length (snd mid) < length a"
          "st' \<in> set (matches (Star r) mid)"
      using unfold by blast
    then show "\<exists>u t. a = u @ t \<and> u \<in> star (lang r) \<and> st' = (rev u @ b, t)"
    proof cases
      case 1
      then show ?thesis using star_empty by fastforce
    next
      case 2
      obtain u t where u: "a = u @ t" "u \<in> lang r" "mid = (rev u @ b, t)"
        using 2(1) inner by blast
      have ne: "u \<noteq> []" using 2(2) u by auto
      have "length t < length a" using 2(2) u by simp
      from less [OF this, of st' "rev u @ b"] 2(3) u(3)
      obtain v t' where v: "t = v @ t'" "v \<in> star (lang r)" "st' = (rev v @ rev u @ b, t')"
        by blast
      have "u @ v \<in> star (lang r)" using u(2) ne v(2) by (rule star_step)
      moreover have "a = (u @ v) @ t'" using u(1) v(1) by simp
      moreover have "st' = (rev (u @ v) @ b, t')" using v(3) by simp
      ultimately show ?thesis by blast
    qed
  next
    assume "\<exists>u t. a = u @ t \<and> u \<in> star (lang r) \<and> st' = (rev u @ b, t)"
    then obtain u t where u: "a = u @ t" "u \<in> star (lang r)" "st' = (rev u @ b, t)"
      by blast
    from u(2) show "st' \<in> set (matches (Star r) (b, a))"
    proof cases
      case star_empty
      then show ?thesis using u unfold by simp
    next
      case (star_step u1 v)
      let ?mid = "(rev u1 @ b, v @ t)"
      have m: "?mid \<in> set (matches r (b, a))"
        using inner [of ?mid b a] star_step(1,2) u(1) by auto
      have l: "length (v @ t) < length a" using star_step u(1) by simp
      have "st' \<in> set (matches (Star r) ?mid)"
        using less [OF l, of st' "rev u1 @ b"] star_step(1,4) u(3) by auto
      then show ?thesis using unfold m l by force
    qed
  qed
qed

lemma matches_plain:
  "plain r \<Longrightarrow> st' \<in> set (matches r (b, a)) \<longleftrightarrow>
     (\<exists>u t. a = u @ t \<and> u \<in> lang r \<and> st' = (rev u @ b, t))"
proof (induction r arbitrary: b a st')
  case (Cls P)
  show ?case by (cases a) auto
next
  case Eps
  show ?case by auto
next
  case (Seq r1 r2)
  have p: "plain r1" "plain r2" using Seq.prems by simp_all
  show ?case
  proof
    assume "st' \<in> set (matches (Seq r1 r2) (b, a))"
    then obtain mid where mid: "mid \<in> set (matches r1 (b, a))" "st' \<in> set (matches r2 mid)"
      by auto
    obtain u t where u: "a = u @ t" "u \<in> lang r1" "mid = (rev u @ b, t)"
      using mid(1) Seq.IH(1) [OF p(1)] by blast
    obtain v t' where v: "t = v @ t'" "v \<in> lang r2" "st' = (rev v @ rev u @ b, t')"
      using mid(2) u(3) Seq.IH(2) [OF p(2)] by blast
    have "a = (u @ v) @ t'" "u @ v \<in> lang (Seq r1 r2)" "st' = (rev (u @ v) @ b, t')"
      using u v by auto
    then show "\<exists>u t. a = u @ t \<and> u \<in> lang (Seq r1 r2) \<and> st' = (rev u @ b, t)"
      by blast
  next
    assume "\<exists>u t. a = u @ t \<and> u \<in> lang (Seq r1 r2) \<and> st' = (rev u @ b, t)"
    then obtain u v t where u: "a = (u @ v) @ t" "u \<in> lang r1" "v \<in> lang r2"
        "st' = (rev (u @ v) @ b, t)"
      by auto
    have "(rev u @ b, v @ t) \<in> set (matches r1 (b, a))"
      using Seq.IH(1) [OF p(1)] u(1,2) by auto
    moreover have "st' \<in> set (matches r2 (rev u @ b, v @ t))"
      using Seq.IH(2) [OF p(2)] u(3,4) by auto
    ultimately show "st' \<in> set (matches (Seq r1 r2) (b, a))"
      by auto
  qed
next
  case (Star r)
  have "plain r" using Star.prems by simp
  then show ?case
    using matches_Star_iff [of r st' b a] Star.IH by simp
qed simp_all

lemma star_class:
  "u \<in> star {[c] | c. P c} \<longleftrightarrow> (\<forall>c \<in> set u. P c)"
proof
  assume "u \<in> star {[c] | c. P c}"
  then show "\<forall>c \<in> set u. P c"
    by induction auto
next
  assume "\<forall>c \<in> set u. P c"
  then show "u \<in> star {[c] | c. P c}"
  proof (induction u)
    case Nil
    show ?case by (rule star_empty)
  next
    case (Cons c u)
    have "[c] @ u \<in> star {[c] | c. P c}"
      using Cons by (intro star_step) auto
    then show ?case by simp
  qed
qed

lemma lang_Plus_Cls:
  "u \<in> lang (Plus (Cls P)) \<longleftrightarrow> u \<noteq> [] \<and> (\<forall>c \<in> set u. P c)"
proof -
  have "u \<in> lang (Plus (Cls P)) \<longleftrightarrow>
      (\<exists>c v. u = [c] @ v \<and> P c \<and> v \<in> star {[c] | c. P c})"
    unfolding Plus_def lang.simps mem_Collect_eq by blast
  also have "\<dots> \<longleftrightarrow> (\<exists>c v. u = [c] @ v \<and> P c \<and> (\<forall>c \<in> set v. P c))"
    by (simp only: star_class)
  also have "\<dots> \<longleftrightarrow> u \<noteq> [] \<and> (\<forall>c \<in> set u. P c)"
    by (cases u) auto
  finally show ?thesis .
qed

lemma lang_Chr: "u \<in> lang (Chr c) \<longleftrightarrow> u = [of_char c]"
  by (auto simp: Chr_def)

lemma plain_Plus_Cls: "plain (Plus (Cls P))" and plain_Chr: "plain (Chr c)"
  by (simp_all add: Plus_def Chr_def)

lemma test_from_Bol:
  "b \<noteq> [] \<Longrightarrow> \<not> test_from (Seq Bol r) b a"
  by (induction a arbitrary: b) auto

lemma test_Bol: "test (Seq Bol r) s \<longleftrightarrow> matches r ([], s) \<noteq> []"
  by (cases s) (simp_all add: test_def test_from_Bol)

lemma matches_Seq_Eol:
  "matches (Seq r (Seq Eol Eps)) st \<noteq> [] \<longleftrightarrow> (\<exists>b'. (b', []) \<in> set (matches r st))"
proof -
  have e: "matches (Seq Eol Eps) x \<noteq> [] \<longleftrightarrow> snd x = []" for x
    by (cases x) simp
  have "matches (Seq r (Seq Eol Eps)) st \<noteq> [] \<longleftrightarrow>
      (\<exists>x \<in> set (matches r st). matches (Seq Eol Eps) x \<noteq> [])"
    by (subst matches.simps(4)) (simp del: matches.simps(4))
  also have "\<dots> \<longleftrightarrow> (\<exists>x \<in> set (matches r st). snd x = [])"
    by (simp only: e)
  also have "\<dots> \<longleftrightarrow> (\<exists>b'. (b', []) \<in> set (matches r st))"
    by force
  finally show ?thesis .
qed

lemma test_anchored:
  assumes "plain r"
  shows "test (Seq Bol (Seq r (Seq Eol Eps))) s \<longleftrightarrow> s \<in> lang r"
  unfolding test_Bol matches_Seq_Eol
  using matches_plain [OF assms, of _ "[]" s] by auto

lemma test_name_rx:
  "test name_rx v \<longleftrightarrow> v \<noteq> [] \<and> (\<forall>c \<in> set v. is_name_char c)"
  unfolding name_rx_def seqs.simps
  by (simp only: test_anchored [OF plain_Plus_Cls] lang_Plus_Cls)

lemma concat_map_concat:
  "concat (map f (concat (map g xs))) = concat (map (\<lambda>x. concat (map f (g x))) xs)"
  by (induction xs) simp_all

lemma matches_Seq_assoc:
  "matches (Seq r1 (Seq r2 r3)) = matches (Seq (Seq r1 r2) r3)"
proof (rule ext)
  fix st
  have "matches (Seq r2 r3) = (\<lambda>x. concat (map (matches r3) (matches r2 x)))"
    by (rule ext) simp
  then show "matches (Seq r1 (Seq r2 r3)) st = matches (Seq (Seq r1 r2) r3) st"
    by (simp add: concat_map_concat)
qed

lemma lang_Seq:
  "u \<in> lang (Seq r1 r2) \<longleftrightarrow> (\<exists>x y. u = x @ y \<and> x \<in> lang r1 \<and> y \<in> lang r2)"
  by auto

lemma emailRegex_body:
  "test emailRegex v \<longleftrightarrow> test (Seq Bol (Seq email_body (Seq Eol Eps))) v"
  unfolding emailRegex_def seqs.simps email_body_def test_Bol
  apply (subst matches_Seq_assoc)
  apply (subst matches_Seq_assoc)
  apply (subst matches_Seq_assoc)
  apply (subst matches_Seq_assoc)
  apply (rule refl)
  done

lemma plain_email_body: "plain email_body"
  by (simp add: email_body_def plain_Plus_Cls plain_Chr)

lemma lang_email_body:
  "v \<in> lang email_body \<longleftrightarrow>
     (\<exists>l d t. v = l @ [0x40] @ d @ [0x2E] @ t \<and> l \<noteq> [] \<and> d \<noteq> [] \<and> t \<noteq> [] \<and>
        (\<forall>c \<in> set l \<union> set d \<union> set t. is_email_char c))"
proof -
  have lang_at: "u \<in> lang (Chr CHR ''@'') \<longleftrightarrow> u = [0x40]" for u
    by (simp add: lang_Chr)
  have lang_dot: "u \<in> lang (Chr CHR ''.'') \<longleftrightarrow> u = [0x2E]" for u
    by (simp add: lang_Chr)
  have "v \<in> lang email_body \<longleftrightarrow>
      (\<exists>l a d p t. v = (((l @ a) @ d) @ p) @ t \<and>
         (l \<noteq> [] \<and> (\<forall>c \<in> set l. is_email_char c)) \<and> a = [0x40] \<and>
         (d \<noteq> [] \<and> (\<forall>c \<in> set d. is_email_char c)) \<and> p = [0x2E] \<and>
         (t \<noteq> [] \<and> (\<forall>c \<in> set t. is_email_char c)))"
    unfolding email_body_def lang_Seq lang_Plus_Cls lang_at lang_dot by blast
  also have "\<dots> \<longleftrightarrow> (\<exists>l d t. v = l @ [0x40] @ d @ [0x2E] @ t \<and> l \<noteq> [] \<and> d \<noteq> [] \<and> t \<noteq> [] \<and>
        (\<forall>c \<in> set l \<union> set d \<union> set t. is_email_char c))"
    by (simp add: ball_Un) blast
  finally show ?thesis .
qed

lemma test_emailRegex:
  "test emailRegex v \<longleftrightarrow>
     (\<exists>l d t. v = l @ [0x40] @ d @ [0x2E] @ t \<and> l \<noteq> [] \<and> d \<noteq> [] \<and> t \<noteq> [] \<and>
        (\<forall>c \<in> set l \<union> set d \<union> set t. is_email_char c))"
  unfolding emailRegex_body test_anchored [OF plain_email_body] lang_email_body ..

lemma validateField_verdict:
  "fst (validateField f) = fst (field_rule (name f) (trim (field_value f)))"
  by (simp add: validateField_def Let_def split: prod.splits)

text \<open>
  C8 (as amended). \<open>validateField\<close> on the field \<^verbatim>\<open>name\<close> succeeds exactly when the trimmed
  value has between 2 and 100 code units and each is an ASCII letter (a-z, A-Z), a
  white-space character (the class \<^verbatim>\<open>\s\<close>: space, tab, line breaks, no-break space and
  the other Unicode spaces), a hyphen or an apostrophe; on \<^verbatim>\<open>email\<close> exactly when the
  trimmed value is a non-empty run without white space and \<^verbatim>\<open>@\<close>, an \<^verbatim>\<open>@\<close>, such a run, a
  dot and such a run; on \<^verbatim>\<open>message\<close> exactly when the trimmed value has between 10 and
  2000 code units.
\<close>

theorem validateField_rules:
  "(name f = ''name'' \<longrightarrow>
      (fst (validateField f) \<longleftrightarrow>
         2 \<le> length (trim (field_value f)) \<and> length (trim (field_value f)) \<le> 100 \<and>
         (\<forall>c \<in> set (trim (field_value f)).
            is_ascii_letter c \<or> is_whitespace c \<or> c = 0x2D \<or> c = 0x27))) \<and>
   (name f = ''email'' \<longrightarrow>
      (fst (validateField f) \<longleftrightarrow>
         (\<exists>l d t. trim (field_value f) = l @ [0x40] @ d @ [0x2E] @ t \<and>
            l \<noteq> [] \<and> d \<noteq> [] \<and> t \<noteq> [] \<and>
            (\<forall>c \<in> set l \<union> set d \<union> set t. \<not> is_whitespace c \<and> c \<noteq> 0x40)))) \<and>
   (name f = ''message'' \<longrightarrow>
      (fst (validateField f) \<longleftrightarrow>
         10 \<le> length (trim (field_value f)) \<and> length (trim (field_value f)) \<le> 2000))"
proof (intro conjI impI)
  assume n: "name f = ''name''"
  show "fst (validateField f) \<longleftrightarrow>
         2 \<le> length (trim (field_value f)) \<and> length (trim (field_value f)) \<le> 100 \<and>
         (\<forall>c \<in> set (trim (field_value f)).
            is_ascii_letter c \<or> is_whitespace c \<or> c = 0x2D \<or> c = 0x27)"
    unfolding validateField_verdict n field_rule_def
    by (auto simp: test_name_rx is_name_char_def)
next
  assume n: "name f = ''email''"
  show "fst (validateField f) \<longleftrightarrow>
         (\<exists>l d t. trim (field_value f) = l @ [0x40] @ d @ [0x2E] @ t \<and>
            l \<noteq> [] \<and> d \<noteq> [] \<and> t \<noteq> [] \<and>
            (\<forall>c \<in> set l \<union> set d \<union> set t. \<not> is_whitespace c \<and> c \<noteq> 0x40))"
    unfolding validateField_verdict n field_rule_def
    by (simp add: test_emailRegex is_email_char_def)
next
  assume n: "name f = ''message''"
  show "fst (validateField f) \<longleftrightarrow>
         10 \<le> length (trim (field_value f)) \<and> length (trim (field_value f)) \<le> 2000"
    unfolding validateField_verdict n field_rule_def
    by auto
qed

theorem validateField_rules_witness:
  "fst (validateField (text_input ''name'' (js '' John Doe ''))) \<and>
   fst (validateField (text_input ''email'' (js ''john@example.com''))) \<and>
   \<not> fst (validateField (text_input ''message'' (js ''short'')))"
proof -
  have n: "fst (validateField (text_input ''name'' (js '' John Doe '')))"
    using validateField_rules [of "text_input ''name'' (js '' John Doe '')"]
    by (simp add: text_input_def trim_def js_def is_whitespace_def is_ascii_letter_def)
  have "trim (js ''john@example.com'') = js ''john'' @ [0x40] @ js ''example'' @ [0x2E] @ js ''com''"
    by (simp add: trim_def js_def is_whitespace_def)
  moreover have "\<forall>c \<in> set (js ''john'') \<union> set (js ''example'') \<union> set (js ''com'').
      \<not> is_whitespace c \<and> c \<noteq> 0x40"
    by (simp add: js_def is_whitespace_def)
  ultimately have "\<exists>l d t. trim (js ''john@example.com'') = l @ [0x40] @ d @ [0x2E] @ t \<and>
      l \<noteq> [] \<and> d \<noteq> [] \<and> t \<noteq> [] \<and>
      (\<forall>c \<in> set l \<union> set d \<union> set t. \<not> is_whitespace c \<and> c \<noteq> 0x40)"
    by (intro exI [of _ "js ''john''"] exI [of _ "js ''example''"] exI [of _ "js ''com''"])
       (simp add: js_def)
  then have e: "fst (validateField (text_input ''email'' (js ''john@example.com'')))"
    using validateField_rules [of "text_input ''email'' (js ''john@example.com'')"]
    by (simp add: text_input_def)
  have m: "\<not> fst (validateField (text_input ''message'' (js ''short'')))"
    using validateField_rules [of "text_input ''message'' (js ''short'')"]
    by (simp add: text_input_def trim_def js_def is_whitespace_def)
  show ?thesis using n e m by simp
qed

theorem validateField_name_tab_counterexample:
  "\<not> (fst (validateField (text_input ''name'' [0x61, 0x09, 0x62])) \<longleftrightarrow>
       2 \<le> length (trim [0x61, 0x09, 0x62]) \<and> length (trim [0x61, 0x09, 0x62]) \<le> 100 \<and>
       list_all spec_name_char (trim [0x61, 0x09, 0x62]))"
proof -
  have "fst (validateField (text_input ''name'' [0x61, 0x09, 0x62]))"
    by code_simp
  moreover have "\<not> list_all spec_name_char (trim [0x61, 0x09, 0x62])"
    by (simp add: trim_def is_whitespace_def spec_name_char_def is_ascii_letter_def)
  ultimately show ?thesis by simp
qed


section \<open>Properties of the token issuer\<close>

lemma padded_byte_length: "length (padStart2 (toString16 byte)) = 2"
  by (simp add: padStart2_def toString16_def Let_def)

lemma concat_pairs_length:
  "(\<And>x. length (f x) = 2) \<Longrightarrow> length (concat (map f xs)) = 2 * length xs"
  by (induction xs) simp_all

lemma generateCSRFToken_length: "length (generateCSRFToken random) = 64"
proof -
  have "length (concat (map (\<lambda>byte. padStart2 (toString16 byte)) (map random [0..<32]))) =
      2 * length (map random [0..<32])"
    by (rule concat_pairs_length) (rule padded_byte_length)
  then show ?thesis by (simp add: generateCSRFToken_def Let_def)
qed

lemma generateCSRFToken_nonempty: "generateCSRFToken random \<noteq> []"
  using generateCSRFToken_length [of random] by auto

lemma initCSRFToken_token:
  "fst (initCSRFToken random p) =
     (case session_csrf_token p of
        Some t \<Rightarrow> if t = [] then generateCSRFToken random else t
      | None \<Rightarrow> generateCSRFToken random)"
  by (simp add: initCSRFToken_def Let_def split: option.splits prod.splits)

lemma initCSRFToken_persisted:
  "session_csrf_token (snd (initCSRFToken random p)) = Some (fst (initCSRFToken random p))"
  by (auto simp: initCSRFToken_def Let_def split: option.splits prod.splits)

lemma initCSRFToken_frame:
  "local_form_submissions (snd (initCSRFToken random p)) = local_form_submissions p"
  "api_calls (snd (initCSRFToken random p)) = api_calls p"
  by (auto simp: initCSRFToken_def Let_def split: option.splits prod.splits)

lemma initCSRFToken_nonempty: "fst (initCSRFToken random p) \<noteq> []"
  by (simp add: initCSRFToken_token generateCSRFToken_nonempty split: option.splits)

lemma initCSRFToken_keeps:
  "session_csrf_token p = Some t \<Longrightarrow> t \<noteq> [] \<Longrightarrow>
   fst (initCSRFToken random p) = t \<and> session_csrf_token (snd (initCSRFToken random p)) = Some t"
  by (simp add: initCSRFToken_persisted initCSRFToken_token)

lemma initCSRFToken_twice:
  "fst (initCSRFToken random2 (snd (initCSRFToken random1 p))) = fst (initCSRFToken random1 p)"
  using initCSRFToken_keeps [OF initCSRFToken_persisted initCSRFToken_nonempty] by simp

section \<open>Properties of the submission controller\<close>

lemma showMessage_frame:
  "session_csrf_token (showMessage ty m p) = session_csrf_token p"
  "local_form_submissions (showMessage ty m p) = local_form_submissions p"
  "api_calls (showMessage ty m p) = api_calls p"
  "contact_form (showMessage ty m p) = contact_form p"
  by (simp_all add: showMessage_def Let_def split: option.splits)

lemma validateField_value:
  "field_value (snd (validateField f)) = field_value f"
  by (simp add: validateField_def Let_def split: prod.splits)

lemma validated_frame:
  "field_value (nameField (validated form)) = field_value (nameField form)"
  "field_value (emailField (validated form)) = field_value (emailField form)"
  "field_value (messageField (validated form)) = field_value (messageField form)"
  "csrf_field (validated form) = csrf_field form"
  by (simp_all add: validated_def validateField_value)

lemma formData_of_validated:
  "formData_of env (validated form) token = formData_of env form token"
  by (simp add: formData_of_def validated_frame)

lemma handleSubmit_denied:
  assumes "\<not> allowed (checkRateLimit (local_form_submissions p) (now_check env))"
  shows "fst (handleSubmit env p) = RateLimitExit"
    and "snd (handleSubmit env p) =
      showMessage ''danger''
        (case message (checkRateLimit (local_form_submissions p) (now_check env)) of
           Some m \<Rightarrow> m | None \<Rightarrow> ''undefined'') p"
  using assms by (simp_all add: handleSubmit_def Let_def)

lemma handleSubmit_honeypot:
  assumes "allowed (checkRateLimit (local_form_submissions p) (now_check env))"
    and "honeypot_filled (contact_form p)"
  shows "fst (handleSubmit env p) = HoneypotExit"
    and "contact_form (snd (handleSubmit env p)) = validated (contact_form p)"
    and "session_csrf_token (snd (handleSubmit env p)) = session_csrf_token p"
    and "local_form_submissions (snd (handleSubmit env p)) = local_form_submissions p"
    and "api_calls (snd (handleSubmit env p)) = api_calls p"
  using assms
  by (simp_all add: handleSubmit_def Let_def honeypot_filled_def validated_def showMessage_frame
      split: prod.splits)

lemma handleSubmit_invalid:
  assumes "allowed (checkRateLimit (local_form_submissions p) (now_check env))"
    and "\<not> honeypot_filled (contact_form p)"
    and "\<not> form_valid (contact_form p)"
  shows "fst (handleSubmit env p) = ValidationExit"
    and "contact_form (snd (handleSubmit env p)) = validated (contact_form p)"
    and "session_csrf_token (snd (handleSubmit env p)) = session_csrf_token p"
    and "local_form_submissions (snd (handleSubmit env p)) = local_form_submissions p"
    and "api_calls (snd (handleSubmit env p)) = api_calls p"
  using assms
  by (auto simp: handleSubmit_def Let_def honeypot_filled_def validated_def form_valid_def
      showMessage_frame split: prod.splits)

lemma handleSubmit_send:
  assumes "allowed (checkRateLimit (local_form_submissions p) (now_check env))"
    and "\<not> honeypot_filled (contact_form p)"
    and "form_valid (contact_form p)"
  shows "handleSubmit env p = send_form env (p\<lparr>contact_form := validated (contact_form p)\<rparr>)"
  using assms
  by (auto simp: handleSubmit_def Let_def honeypot_filled_def validated_def form_valid_def
      split: prod.splits)

lemma catch_error_frame:
  "session_csrf_token (catch_error p) = session_csrf_token p"
  "local_form_submissions (catch_error p) = local_form_submissions p"
  "api_calls (catch_error p) = api_calls p"
  by (simp_all add: catch_error_def showMessage_frame)

lemma after_success_frame:
  "local_form_submissions (after_success env p) =
     recordSubmission (local_form_submissions p) (now_record env)"
  "api_calls (after_success env p) = api_calls p"
  by (simp_all add: after_success_def Let_def initCSRFToken_frame showMessage_frame)

lemma after_success_token:
  "session_csrf_token (after_success env p) =
     Some (case session_csrf_token p of
             Some t \<Rightarrow> if t = [] then generateCSRFToken (random_bytes env) else t
           | None \<Rightarrow> generateCSRFToken (random_bytes env))"
  by (simp add: after_success_def Let_def initCSRFToken_persisted initCSRFToken_token
      showMessage_frame)

lemma send_form_no_token_field:
  assumes "csrf_field (contact_form p) = None"
  shows "fst (send_form env p) = ErrorExit"
    and "api_calls (snd (send_form env p)) = api_calls p"
    and "session_csrf_token (snd (send_form env p)) = session_csrf_token p"
    and "local_form_submissions (snd (send_form env p)) = local_form_submissions p"
  using assms by (simp_all add: send_form_def Let_def catch_error_frame)

lemma send_form_rejected:
  assumes "csrf_field (contact_form p) = Some token"
    and "\<not> transport env (formData_of env (contact_form p) token)"
  shows "fst (send_form env p) = ErrorExit"
    and "api_calls (snd (send_form env p)) =
           api_calls p @ [formData_of env (contact_form p) token]"
    and "session_csrf_token (snd (send_form env p)) = session_csrf_token p"
    and "local_form_submissions (snd (send_form env p)) = local_form_submissions p"
  using assms by (simp_all add: send_form_def Let_def catch_error_frame)

lemma send_form_resolved:
  assumes "csrf_field (contact_form p) = Some token"
    and "transport env (formData_of env (contact_form p) token)"
  shows "fst (send_form env p) = SuccessExit"
    and "api_calls (snd (send_form env p)) =
           api_calls p @ [formData_of env (contact_form p) token]"
    and "session_csrf_token (snd (send_form env p)) =
           Some (case session_csrf_token p of
                   Some t \<Rightarrow> if t = [] then generateCSRFToken (random_bytes env) else t
                 | None \<Rightarrow> generateCSRFToken (random_bytes env))"
    and "local_form_submissions (snd (send_form env p)) =
           recordSubmission (local_form_submissions p) (now_record env)"
  using assms by (simp_all add: send_form_def Let_def after_success_frame after_success_token)

lemma handleSubmit_token_kept:
  assumes "session_csrf_token p = Some t" and "t \<noteq> []"
  shows "session_csrf_token (snd (handleSubmit env p)) = Some t"
proof (cases "allowed (checkRateLimit (local_form_submissions p) (now_check env))")
  case False
  then show ?thesis using assms by (simp add: handleSubmit_denied showMessage_frame)
next
  case a: True
  show ?thesis
  proof (cases "honeypot_filled (contact_form p)")
    case True
    then show ?thesis using a assms by (simp add: handleSubmit_honeypot)
  next
    case h: False
    show ?thesis
    proof (cases "form_valid (contact_form p)")
      case False
      then show ?thesis using a h assms by (simp add: handleSubmit_invalid)
    next
      case v: True
      let ?q = "p\<lparr>contact_form := validated (contact_form p)\<rparr>"
      have s: "handleSubmit env p = send_form env ?q"
        using a h v by (rule handleSubmit_send)
      have q: "session_csrf_token ?q = Some t" using assms by simp
      show ?thesis
      proof (cases "csrf_field (contact_form ?q)")
        case None
        then show ?thesis using s q by (simp add: send_form_no_token_field)
      next
        case (Some token)
        show ?thesis
        proof (cases "transport env (formData_of env (contact_form ?q) token)")
          case True
          then show ?thesis
            using s q assms(2) send_form_resolved(3) [OF Some True] by simp
        next
          case False
          then show ?thesis
            using s q send_form_rejected(3) [OF Some False] by simp
        qed
      qed
    qed
  qed
qed

text \<open>
  C9. A submit attempt that the rate limiter admits, with an empty honeypot, and in which
  the name, the email or the message is invalid or the consent box is unchecked, ends at the
  validation return: the transport is not called, the durable store is unchanged and the
  persisted session token is unchanged.
\<close>

theorem handleSubmit_validation_failure:
  assumes "allowed (checkRateLimit (local_form_submissions p) (now_check env))"
    and "\<not> honeypot_filled (contact_form p)"
    and "\<not> form_valid (contact_form p)"
  shows "fst (handleSubmit env p) = ValidationExit \<and>
         api_calls (snd (handleSubmit env p)) = api_calls p \<and>
         local_form_submissions (snd (handleSubmit env p)) = local_form_submissions p \<and>
         session_csrf_token (snd (handleSubmit env p)) = session_csrf_token p"
  using handleSubmit_invalid [OF assms] by simp

lemma short_form_facts:
  "allowed (checkRateLimit (local_form_submissions (sample_page short_form None))
     (now_check (sample_env 1000000 (\<lambda>i. 1))))"
  "\<not> honeypot_filled (contact_form (sample_page short_form None))"
  "\<not> form_valid (contact_form (sample_page short_form None))"
  by code_simp+

theorem handleSubmit_validation_failure_witness:
  "fst (handleSubmit (sample_env 1000000 (\<lambda>i. 1)) (sample_page short_form None)) = ValidationExit \<and>
   api_calls (snd (handleSubmit (sample_env 1000000 (\<lambda>i. 1)) (sample_page short_form None))) = [] \<and>
   local_form_submissions
     (snd (handleSubmit (sample_env 1000000 (\<lambda>i. 1)) (sample_page short_form None))) = None \<and>
   session_csrf_token
     (snd (handleSubmit (sample_env 1000000 (\<lambda>i. 1)) (sample_page short_form None))) = None"
  using handleSubmit_validation_failure [OF short_form_facts]
  by (simp add: sample_page_def)

text \<open>
  C2 (as amended). A submit attempt with a non-empty trimmed honeypot adds no rate-limit
  record, leaves the session token unchanged and makes no transport call. Field validation
  is surfaced, though: when the rate limiter admits the attempt, the three fields are
  validated before the honeypot is looked at, so their validity classes and inline error
  texts are those \<open>validateField\<close> sets; only when the rate limiter denies is the form left
  as it was.
\<close>

theorem handleSubmit_honeypot_frame:
  assumes "honeypot_filled (contact_form p)"
  shows "local_form_submissions (snd (handleSubmit env p)) = local_form_submissions p \<and>
         session_csrf_token (snd (handleSubmit env p)) = session_csrf_token p \<and>
         api_calls (snd (handleSubmit env p)) = api_calls p \<and>
         (if allowed (checkRateLimit (local_form_submissions p) (now_check env))
          then fst (handleSubmit env p) = HoneypotExit \<and>
               contact_form (snd (handleSubmit env p)) = validated (contact_form p)
          else fst (handleSubmit env p) = RateLimitExit \<and>
               contact_form (snd (handleSubmit env p)) = contact_form p)"
proof (cases "allowed (checkRateLimit (local_form_submissions p) (now_check env))")
  case True
  then show ?thesis using handleSubmit_honeypot [OF True assms] by simp
next
  case False
  then show ?thesis using handleSubmit_denied [OF False] by (simp add: showMessage_frame)
qed

lemma spam_bot_filled: "honeypot_filled (contact_form (sample_page spam_bot None))"
  by code_simp

lemma spam_bot_name:
  "snd (validateField (nameField spam_bot)) =
     \<lparr>classList = [''form-control'', ''is-invalid''], textContent = [], display = [],
      name = ''name'', field_value = js ''J'', defaultValue = [],
      nextElementSibling =
        Some \<lparr>classList = [''invalid-feedback''],
              textContent = ''Name must be between 2 and 100 characters'',
              display = ''block''\<rparr>\<rparr>"
  by code_simp

theorem handleSubmit_honeypot_frame_witness:
  "fst (handleSubmit (sample_env 1000000 (\<lambda>i. 1)) (sample_page spam_bot None)) = HoneypotExit \<and>
   api_calls (snd (handleSubmit (sample_env 1000000 (\<lambda>i. 1)) (sample_page spam_bot None))) = [] \<and>
   local_form_submissions
     (snd (handleSubmit (sample_env 1000000 (\<lambda>i. 1)) (sample_page spam_bot None))) = None \<and>
   session_csrf_token
     (snd (handleSubmit (sample_env 1000000 (\<lambda>i. 1)) (sample_page spam_bot None))) = None"
proof -
  have "allowed (checkRateLimit (local_form_submissions (sample_page spam_bot None))
     (now_check (sample_env 1000000 (\<lambda>i. 1))))"
    by code_simp
  then show ?thesis
    using handleSubmit_honeypot_frame [OF spam_bot_filled, of "sample_env 1000000 (\<lambda>i. 1)"]
    by (simp add: sample_page_def)
qed

theorem handleSubmit_honeypot_validation_counterexample:
  "honeypot_filled (contact_form (sample_page spam_bot None)) \<and>
   classList (nameField (contact_form (sample_page spam_bot None))) = [''form-control''] \<and>
   classList (nameField (contact_form
     (snd (handleSubmit (sample_env 1000000 (\<lambda>i. 1)) (sample_page spam_bot None))))) =
     [''form-control'', ''is-invalid''] \<and>
   map_option textContent (nextElementSibling (nameField (contact_form
     (snd (handleSubmit (sample_env 1000000 (\<lambda>i. 1)) (sample_page spam_bot None)))))) =
     Some ''Name must be between 2 and 100 characters''"
proof -
  have a: "allowed (checkRateLimit (local_form_submissions (sample_page spam_bot None))
     (now_check (sample_env 1000000 (\<lambda>i. 1))))"
    by code_simp
  have "contact_form (snd (handleSubmit (sample_env 1000000 (\<lambda>i. 1)) (sample_page spam_bot None))) =
      validated (contact_form (sample_page spam_bot None))"
    by (rule handleSubmit_honeypot(2) [OF a spam_bot_filled])
  moreover have "contact_form (sample_page spam_bot None) = spam_bot"
    by (simp add: sample_page_def)
  moreover have "classList (nameField spam_bot) = [''form-control'']"
    by (simp add: spam_bot_def sample_form_def text_input_def)
  ultimately show ?thesis
    using spam_bot_filled by (simp add: validated_def spam_bot_name)
qed

lemma handleSubmit_sent:
  assumes a: "allowed (checkRateLimit (local_form_submissions p) (now_check env))"
    and h: "\<not> honeypot_filled (contact_form p)"
    and v: "form_valid (contact_form p)"
  shows "csrf_field (contact_form p) = None \<Longrightarrow>
           fst (handleSubmit env p) = ErrorExit \<and>
           api_calls (snd (handleSubmit env p)) = api_calls p \<and>
           local_form_submissions (snd (handleSubmit env p)) = local_form_submissions p"
    and "csrf_field (contact_form p) = Some token \<Longrightarrow>
           \<not> transport env (formData_of env (contact_form p) token) \<Longrightarrow>
           fst (handleSubmit env p) = ErrorExit \<and>
           api_calls (snd (handleSubmit env p)) =
             api_calls p @ [formData_of env (contact_form p) token] \<and>
           local_form_submissions (snd (handleSubmit env p)) = local_form_submissions p"
    and "csrf_field (contact_form p) = Some token \<Longrightarrow>
           transport env (formData_of env (contact_form p) token) \<Longrightarrow>
           fst (handleSubmit env p) = SuccessExit \<and>
           api_calls (snd (handleSubmit env p)) =
             api_calls p @ [formData_of env (contact_form p) token] \<and>
           local_form_submissions (snd (handleSubmit env p)) =
             recordSubmission (local_form_submissions p) (now_record env)"
proof -
  let ?q = "p\<lparr>contact_form := validated (contact_form p)\<rparr>"
  have s: "handleSubmit env p = send_form env ?q"
    using a h v by (rule handleSubmit_send)
  have c: "csrf_field (contact_form ?q) = csrf_field (contact_form p)"
    by (simp add: validated_frame)
  have f: "formData_of env (contact_form ?q) token = formData_of env (contact_form p) token"
    by (simp add: formData_of_validated)
  show "csrf_field (contact_form p) = None \<Longrightarrow>
           fst (handleSubmit env p) = ErrorExit \<and>
           api_calls (snd (handleSubmit env p)) = api_calls p \<and>
           local_form_submissions (snd (handleSubmit env p)) = local_form_submissions p"
    using send_form_no_token_field [of ?q env] c s by simp
  show "csrf_field (contact_form p) = Some token \<Longrightarrow>
           \<not> transport env (formData_of env (contact_form p) token) \<Longrightarrow>
           fst (handleSubmit env p) = ErrorExit \<and>
           api_calls (snd (handleSubmit env p)) =
             api_calls p @ [formData_of env (contact_form p) token] \<and>
           local_form_submissions (snd (handleSubmit env p)) = local_form_submissions p"
    using send_form_rejected [of ?q token env] c f s by simp
  show "csrf_field (contact_form p) = Some token \<Longrightarrow>
           transport env (formData_of env (contact_form p) token) \<Longrightarrow>
           fst (handleSubmit env p) = SuccessExit \<and>
           api_calls (snd (handleSubmit env p)) =
             api_calls p @ [formData_of env (contact_form p) token] \<and>
           local_form_submissions (snd (handleSubmit env p)) =
             recordSubmission (local_form_submissions p) (now_record env)"
    using send_form_resolved [of ?q token env] c f s by simp
qed

lemma handleSubmit_exit:
  "fst (handleSubmit env p) =
     (if \<not> allowed (checkRateLimit (local_form_submissions p) (now_check env)) then RateLimitExit
      else if honeypot_filled (contact_form p) then HoneypotExit
      else if \<not> form_valid (contact_form p) then ValidationExit
      else case csrf_field (contact_form p) of
             None \<Rightarrow> ErrorExit
           | Some token \<Rightarrow>
               if transport env (formData_of env (contact_form p) token)
               then SuccessExit else ErrorExit)"
  using handleSubmit_denied(1) [of p env] handleSubmit_honeypot(1) [of p env]
    handleSubmit_invalid(1) [of p env] handleSubmit_sent [of p env]
  by (auto split: option.splits)

lemma handleSubmit_api_calls:
  "api_calls (snd (handleSubmit env p)) =
     (if fst (handleSubmit env p) = SuccessExit \<or> fst (handleSubmit env p) = ErrorExit
      then case csrf_field (contact_form p) of
             None \<Rightarrow> api_calls p
           | Some token \<Rightarrow> api_calls p @ [formData_of env (contact_form p) token]
      else api_calls p)"
proof (cases "allowed (checkRateLimit (local_form_submissions p) (now_check env))")
  case False
  then show ?thesis by (simp add: handleSubmit_denied showMessage_frame)
next
  case a: True
  show ?thesis
  proof (cases "honeypot_filled (contact_form p)")
    case True
    then show ?thesis using a by (simp add: handleSubmit_honeypot)
  next
    case h: False
    show ?thesis
    proof (cases "form_valid (contact_form p)")
      case False
      then show ?thesis using a h by (simp add: handleSubmit_invalid)
    next
      case v: True
      show ?thesis
        using handleSubmit_sent [OF a h v] by (cases "csrf_field (contact_form p)") auto
    qed
  qed
qed

lemma handleSubmit_form:
  "(fst (handleSubmit env p) = RateLimitExit \<longrightarrow>
      contact_form (snd (handleSubmit env p)) = contact_form p) \<and>
   (fst (handleSubmit env p) = HoneypotExit \<or> fst (handleSubmit env p) = ValidationExit \<longrightarrow>
      contact_form (snd (handleSubmit env p)) = validated (contact_form p))"
proof (cases "allowed (checkRateLimit (local_form_submissions p) (now_check env))")
  case False
  then show ?thesis by (simp add: handleSubmit_denied showMessage_frame)
next
  case a: True
  show ?thesis
  proof (cases "honeypot_filled (contact_form p)")
    case True
    then show ?thesis using a by (simp add: handleSubmit_honeypot)
  next
    case h: False
    show ?thesis
    proof (cases "form_valid (contact_form p)")
      case False
      then show ?thesis using a h by (simp add: handleSubmit_invalid)
    next
      case v: True
      then show ?thesis
        using a h by (simp add: handleSubmit_exit split: option.splits)
    qed
  qed
qed

lemma form_valid_csrf_field: "form_valid (form\<lparr>csrf_field := x\<rparr>) = form_valid form"
  by (simp add: form_valid_def)

lemma honeypot_filled_csrf_field:
  "honeypot_filled (form\<lparr>csrf_field := x\<rparr>) = honeypot_filled form"
  by (simp add: honeypot_filled_def)

lemma loaded_sample_page:
  "initContactForm random (sample_page (sample_form n e m w c) store) =
     (sample_page ((sample_form n e m w c)\<lparr>csrf_field := Some (generateCSRFToken random)\<rparr>) store)
       \<lparr>session_csrf_token := Some (generateCSRFToken random)\<rparr>"
  by (simp add: initContactForm_def initCSRFToken_def sample_page_def sample_form_def Let_def)

lemma john_doe_valid: "form_valid john_doe" and john_doe_honeypot: "\<not> honeypot_filled john_doe"
  by code_simp+

lemma token_ab:
  "generateCSRFToken (\<lambda>i. 0xAB) =
     js ''abababababababababababababababababababababababababababababababab''"
  by code_simp

lemma token_01:
  "generateCSRFToken (\<lambda>i. 0x01) =
     js ''0101010101010101010101010101010101010101010101010101010101010101''"
  by code_simp

lemma john_doe_submit:
  "allowed (checkRateLimit
     (local_form_submissions (initContactForm (\<lambda>i. 0xAB) (sample_page john_doe None)))
     (now_check (sample_env 1000000 (\<lambda>i. 0x01))))"
  "\<not> honeypot_filled (contact_form (initContactForm (\<lambda>i. 0xAB) (sample_page john_doe None)))"
  "form_valid (contact_form (initContactForm (\<lambda>i. 0xAB) (sample_page john_doe None)))"
  "csrf_field (contact_form (initContactForm (\<lambda>i. 0xAB) (sample_page john_doe None))) =
     Some (generateCSRFToken (\<lambda>i. 0xAB))"
  "session_csrf_token (initContactForm (\<lambda>i. 0xAB) (sample_page john_doe None)) =
     Some (generateCSRFToken (\<lambda>i. 0xAB))"
  "local_form_submissions (initContactForm (\<lambda>i. 0xAB) (sample_page john_doe None)) = None"
  "api_calls (initContactForm (\<lambda>i. 0xAB) (sample_page john_doe None)) = []"
  "transport (sample_env 1000000 (\<lambda>i. 0x01)) payload"
  unfolding john_doe_def loaded_sample_page
  unfolding john_doe_def [symmetric]
  by (simp_all add: sample_page_def sample_env_def simulateAPICall_def checkRateLimit_def
      recentSubmissions_def stored_submissions_def form_valid_csrf_field john_doe_valid
      honeypot_filled_csrf_field john_doe_honeypot)

lemma handleSubmit_success_records:
  assumes "fst (handleSubmit env p) = SuccessExit"
  shows "local_form_submissions (snd (handleSubmit env p)) =
           recordSubmission (local_form_submissions p) (now_record env)"
proof -
  have e: "allowed (checkRateLimit (local_form_submissions p) (now_check env))"
      "\<not> honeypot_filled (contact_form p)" "form_valid (contact_form p)"
    using assms by (auto simp: handleSubmit_exit split: if_splits)
  obtain token where t: "csrf_field (contact_form p) = Some token"
      "transport env (formData_of env (contact_form p) token)"
    using assms e by (auto simp: handleSubmit_exit split: if_splits option.splits)
  show ?thesis using handleSubmit_sent(3) [OF e t] by simp
qed

text \<open>
  C3 (as amended). The checks of \<open>handleSubmit\<close> come in this order: the rate limit first
  (a denial ends the attempt with the form untouched), then the validation of the three
  fields and the consent check, then the honeypot check, then the decision on the validity
  found before, then the payload with the value of the token input attached, then the
  network call. The honeypot is looked at only after the rate limit and the field
  validation.
\<close>

theorem handleSubmit_order:
  "fst (handleSubmit env p) =
     (if \<not> allowed (checkRateLimit (local_form_submissions p) (now_check env)) then RateLimitExit
      else if honeypot_filled (contact_form p) then HoneypotExit
      else if \<not> form_valid (contact_form p) then ValidationExit
      else case csrf_field (contact_form p) of
             None \<Rightarrow> ErrorExit
           | Some token \<Rightarrow>
               if transport env (formData_of env (contact_form p) token)
               then SuccessExit else ErrorExit) \<and>
   (fst (handleSubmit env p) = RateLimitExit \<longrightarrow>
      contact_form (snd (handleSubmit env p)) = contact_form p) \<and>
   (fst (handleSubmit env p) = HoneypotExit \<or> fst (handleSubmit env p) = ValidationExit \<longrightarrow>
      contact_form (snd (handleSubmit env p)) = validated (contact_form p)) \<and>
   api_calls (snd (handleSubmit env p)) =
     (if fst (handleSubmit env p) = SuccessExit \<or> fst (handleSubmit env p) = ErrorExit
      then case csrf_field (contact_form p) of
             None \<Rightarrow> api_calls p
           | Some token \<Rightarrow> api_calls p @ [formData_of env (contact_form p) token]
      else api_calls p) \<and>
   data_csrf_token (formData_of env (contact_form p) token) = token"
  using handleSubmit_exit [of env p] handleSubmit_form [of env p] handleSubmit_api_calls [of env p]
  by (simp add: formData_of_def)

theorem handleSubmit_order_witness:
  "fst (handleSubmit (sample_env 1000000 (\<lambda>i. 0x01))
          (initContactForm (\<lambda>i. 0xAB) (sample_page john_doe None))) = SuccessExit \<and>
   map data_csrf_token (api_calls (snd (handleSubmit (sample_env 1000000 (\<lambda>i. 0x01))
          (initContactForm (\<lambda>i. 0xAB) (sample_page john_doe None))))) =
     [js ''abababababababababababababababababababababababababababababababab'']"
proof -
  let ?env = "sample_env 1000000 (\<lambda>i. 0x01)"
  let ?p = "initContactForm (\<lambda>i. 0xAB) (sample_page john_doe None)"
  note order = handleSubmit_order [of ?env ?p "generateCSRFToken (\<lambda>i. 0xAB)"]
  have s: "fst (handleSubmit ?env ?p) = SuccessExit"
    using order by (simp add: john_doe_submit(1,2,3,4,8))
  have "api_calls (snd (handleSubmit ?env ?p)) =
      api_calls ?p @ [formData_of ?env (contact_form ?p) (generateCSRFToken (\<lambda>i. 0xAB))]"
    using order s by (simp add: john_doe_submit(4))
  then show ?thesis
    using s by (simp add: john_doe_submit(7) formData_of_def token_ab)
qed

theorem handleSubmit_rate_limit_first_counterexample:
  "honeypot_filled (contact_form (sample_page spam_bot (Some [997000, 998000, 999000]))) \<and>
   fst (handleSubmit (sample_env 1000000 (\<lambda>i. 1))
          (sample_page spam_bot (Some [997000, 998000, 999000]))) = RateLimitExit \<and>
   map_option textContent (messageDiv (snd (handleSubmit (sample_env 1000000 (\<lambda>i. 1))
          (sample_page spam_bot (Some [997000, 998000, 999000]))))) =
     Some ''Rate limit exceeded. Please try again in 60 minute(s).''"
proof -
  have c: "checkRateLimit (local_form_submissions (sample_page spam_bot (Some [997000, 998000, 999000])))
      (now_check (sample_env 1000000 (\<lambda>i. 1))) =
      \<lparr>allowed = False,
       message = Some ''Rate limit exceeded. Please try again in 60 minute(s).''\<rparr>"
    by (simp add: sample_page_def sample_env_def checkRateLimit_def recentSubmissions_def
        stored_submissions_def oneHour_def timeUntilNext_def minutesLeft_def Let_def
        rate_limit_message_def number_to_string_def digits.simps)
  then have d: "\<not> allowed (checkRateLimit
      (local_form_submissions (sample_page spam_bot (Some [997000, 998000, 999000])))
      (now_check (sample_env 1000000 (\<lambda>i. 1))))"
    by simp
  have "honeypot_filled (contact_form (sample_page spam_bot (Some [997000, 998000, 999000])))"
    using spam_bot_filled by (simp add: sample_page_def)
  then show ?thesis
    using handleSubmit_denied [OF d] c by (simp add: showMessage_def sample_page_def)
qed

text \<open>
  C1. The code does not rotate the token. After a successful submission the submission is
  recorded, but the call of \<open>initCSRFToken\<close> that follows finds the token of the session
  and keeps it: the persisted token after the success is the one of submit time.
\<close>

theorem handleSubmit_success_keeps_token:
  assumes "fst (handleSubmit env p) = SuccessExit"
    and "session_csrf_token p = Some t" and "t \<noteq> []"
  shows "session_csrf_token (snd (handleSubmit env p)) = session_csrf_token p \<and>
         local_form_submissions (snd (handleSubmit env p)) =
           recordSubmission (local_form_submissions p) (now_record env)"
  using handleSubmit_token_kept [OF assms(2,3)] handleSubmit_success_records [OF assms(1)] assms(2)
  by simp

theorem handleSubmit_success_keeps_token_witness:
  "fst (handleSubmit (sample_env 1000000 (\<lambda>i. 0x01))
          (initContactForm (\<lambda>i. 0xAB) (sample_page john_doe None))) = SuccessExit \<and>
   session_csrf_token (initContactForm (\<lambda>i. 0xAB) (sample_page john_doe None)) =
     Some (js ''abababababababababababababababababababababababababababababababab'') \<and>
   session_csrf_token (snd (handleSubmit (sample_env 1000000 (\<lambda>i. 0x01))
          (initContactForm (\<lambda>i. 0xAB) (sample_page john_doe None)))) =
     Some (js ''abababababababababababababababababababababababababababababababab'') \<and>
   local_form_submissions (snd (handleSubmit (sample_env 1000000 (\<lambda>i. 0x01))
          (initContactForm (\<lambda>i. 0xAB) (sample_page john_doe None)))) = Some [1001500] \<and>
   generateCSRFToken (random_bytes (sample_env 1000000 (\<lambda>i. 0x01))) =
     js ''0101010101010101010101010101010101010101010101010101010101010101''"
proof -
  let ?env = "sample_env 1000000 (\<lambda>i. 0x01)"
  let ?p = "initContactForm (\<lambda>i. 0xAB) (sample_page john_doe None)"
  have s: "fst (handleSubmit ?env ?p) = SuccessExit"
    using handleSubmit_sent(3) [OF john_doe_submit(1,2,3,4) john_doe_submit(8)] by simp
  have n: "generateCSRFToken (\<lambda>i. 0xAB) \<noteq> []"
    by (rule generateCSRFToken_nonempty)
  have r: "recordSubmission None (now_record ?env) = Some [1001500]"
    by (simp add: recordSubmission_def stored_submissions_def sample_env_def)
  show ?thesis
    using handleSubmit_success_keeps_token [OF s john_doe_submit(5) n] s r
    by (simp add: john_doe_submit(5,6) token_ab token_01 sample_env_def)
qed

text \<open>
  C7. A second call of \<open>initCSRFToken\<close> returns and persists the token of the first,
  whatever the random source gives, and a generated token has 64 code units. The source has
  no other operation on the token: the call after a successful submission is this second
  call, so no new value is ever persisted in place of an old one.
\<close>

theorem initCSRFToken_second_call_keeps_token:
  "fst (initCSRFToken random2 (snd (initCSRFToken random1 p))) = fst (initCSRFToken random1 p) \<and>
   session_csrf_token (snd (initCSRFToken random2 (snd (initCSRFToken random1 p)))) =
     Some (fst (initCSRFToken random1 p)) \<and>
   length (generateCSRFToken random1) = 64"
  using initCSRFToken_twice [of random2 random1 p]
    initCSRFToken_persisted [of random2 "snd (initCSRFToken random1 p)"]
  by (simp add: generateCSRFToken_length)

theorem initCSRFToken_second_call_keeps_token_witness:
  "fst (initCSRFToken (\<lambda>i. 0xAB) (sample_page john_doe None)) =
     js ''abababababababababababababababababababababababababababababababab'' \<and>
   fst (initCSRFToken (\<lambda>i. 0x01) (snd (initCSRFToken (\<lambda>i. 0xAB) (sample_page john_doe None)))) =
     js ''abababababababababababababababababababababababababababababababab'' \<and>
   session_csrf_token
     (snd (initCSRFToken (\<lambda>i. 0x01) (snd (initCSRFToken (\<lambda>i. 0xAB) (sample_page john_doe None))))) =
     Some (js ''abababababababababababababababababababababababababababababababab'') \<and>
   generateCSRFToken (\<lambda>i. 0x01) =
     js ''0101010101010101010101010101010101010101010101010101010101010101''"
proof -
  have "fst (initCSRFToken (\<lambda>i. 0xAB) (sample_page john_doe None)) = generateCSRFToken (\<lambda>i. 0xAB)"
    by (simp add: initCSRFToken_token sample_page_def)
  then show ?thesis
    using initCSRFToken_second_call_keeps_token
      [of "\<lambda>i. 0x01" "\<lambda>i. 0xAB" "sample_page john_doe None"]
    by (simp add: token_ab token_01)
qed


end
